theory Spec2Isabelle
  imports Complex_Main "HOL-Library.Sublist"
begin

chapter \<open>Kstream: a shallow embedding of the crash-safe transaction pipeline\<close>

text \<open>
  The development embeds the parts of Kstream that handle durable state
  (class \<^verbatim>\<open>State\<close>, \<^verbatim>\<open>src/state.ts\<close>), hook contexts (classes
  \<^verbatim>\<open>InnerHookContext\<close> and \<^verbatim>\<open>HookContext\<close>, \<^verbatim>\<open>src/boxView.ts\<close>; the module the
  other files import as \<^verbatim>\<open>hookContext\<close>), the mutex (\<^verbatim>\<open>src/mutex.ts\<close>), the stream
  facade (class \<^verbatim>\<open>Stream\<close>, \<^verbatim>\<open>src/stream.ts\<close>), the transaction set (second part of
  \<^verbatim>\<open>src/http.ts\<close>), the transaction queue (class \<^verbatim>\<open>TransactionQueue\<close>, third part
  of \<^verbatim>\<open>README.md\<close>), the stream assembler (class \<^verbatim>\<open>TransactionStream\<close>,
  \<^verbatim>\<open>unnamed/part_000\<close>), the push socket (\<^verbatim>\<open>src/transactionSocket.ts\<close>) and the
  timestamp parser of the utilities (\<^verbatim>\<open>unnamed/part_001\<close>).

  Conventions of the embedding:
  \<^item> Lua numbers that hold identifiers, revisions and counters are \<open>int\<close>;
    the timestamp arithmetic, which divides, is \<open>rat\<close>.
  \<^item> An optional field is an \<open>option\<close>; Lua's \<^verbatim>\<open>nil\<close> is \<open>None\<close>.
  \<^item> Mutation of \<^verbatim>\<open>this\<close> is explicit state passing; an exception is the
    \<open>Inl\<close> branch of a sum or a \<open>Raise\<close> result.
  \<^item> \<^verbatim>\<open>copy\<close> (serialise, then unserialise) yields a fresh deep copy; values
    of HOL are immutable, so it is the identity on the embedded data.
\<close>

section \<open>Data model\<close>

subsection \<open>Transactions as received from the node (\<^verbatim>\<open>util.ts\<close>)\<close>

record ApiTransaction =
  tx_id :: int
  tx_from :: "string option"
  tx_to :: string
  tx_value :: int
  tx_time :: string
  tx_name :: "string option"
  tx_metadata :: "string option"
  tx_sent_metaname :: "string option"
  tx_sent_name :: "string option"
  tx_type :: string

subsection \<open>Transaction sets (\<^verbatim>\<open>transactionSet.ts\<close>)\<close>

record TransactionSet =
  set_includeMined :: bool
  set_address :: "string option"

text \<open>
  \<^verbatim>\<open>contains\<close>: a mined transaction is outside a set that excludes mining
  rewards; with an address filter, the transaction must be from or to it.
  \<^verbatim>\<open>transaction.from != this.address\<close> compares an optional string with a
  string, so a missing sender differs from every address.
\<close>

definition contains :: "TransactionSet \<Rightarrow> ApiTransaction \<Rightarrow> bool" where
  "contains s transaction =
     (if \<not> set_includeMined s \<and> tx_type transaction = ''mined'' then False
      else (case set_address s of
              None \<Rightarrow> True
            | Some a \<Rightarrow>
                if tx_from transaction \<noteq> Some a \<and> tx_to transaction \<noteq> a then False
                else True))"

subsection \<open>The transaction queue (\<^verbatim>\<open>transactionQueue.ts\<close>)\<close>

record TransactionQueue =
  q_transactions :: "int \<rightharpoonup> ApiTransaction"
  q_set :: TransactionSet
  nextPopId :: int
  lastSeenId :: int

text \<open>The constructor: an empty map, popping resumes right after \<open>id\<close>.\<close>

definition newTransactionQueue :: "TransactionSet \<Rightarrow> int \<Rightarrow> TransactionQueue" where
  "newTransactionQueue s i =
     \<lparr> q_transactions = Map.empty, q_set = s, nextPopId = i + 1, lastSeenId = i \<rparr>"

text \<open>
  \<^verbatim>\<open>tryPushTransaction\<close> returns the boolean of the source together with the
  queue after the call.
\<close>

definition tryPushTransaction :: "TransactionQueue \<Rightarrow> ApiTransaction \<Rightarrow> bool \<times> TransactionQueue" where
  "tryPushTransaction q tx =
     (if tx_id tx \<noteq> lastSeenId q + 1 then (False, q)
      else
        let q1 = q\<lparr> lastSeenId := lastSeenId q + 1 \<rparr>;
            q2 = (if contains (q_set q1) tx \<and> nextPopId q1 \<le> tx_id tx
                  then q1\<lparr> q_transactions := (q_transactions q1)(tx_id tx \<mapsto> tx) \<rparr>
                  else q1)
        in (True, q2))"

subsection \<open>The stream assembler's flags (\<^verbatim>\<open>transactionStream.ts\<close>)\<close>

record TransactionStream =
  s_queue :: TransactionQueue
  hasReachedTail :: bool
  hasTailHole :: bool
  s_isUp :: bool

text \<open>The socket's push callback, installed by the constructor.\<close>

definition transactionCb :: "TransactionStream \<Rightarrow> ApiTransaction \<Rightarrow> TransactionStream" where
  "transactionCb s tx =
     (let (ok, q') = tryPushTransaction (s_queue s) tx;
          s1 = s\<lparr> s_queue := q' \<rparr>
      in if ok then s1\<lparr> hasReachedTail := True, hasTailHole := False \<rparr>
         else if hasReachedTail s1 then s1\<lparr> hasTailHole := True \<rparr>
         else s1)"

text \<open>The socket's status callback: a socket that went down unsets the tail flag.\<close>

definition statusCb :: "TransactionStream \<Rightarrow> bool \<Rightarrow> TransactionStream" where
  "statusCb s isUp =
     (let s1 = (if \<not> isUp then s\<lparr> hasReachedTail := False \<rparr> else s)
      in s1\<lparr> s_isUp := isUp \<rparr>)"

subsection \<open>The stored state (\<^verbatim>\<open>state.ts\<close>)\<close>

datatype OutboxStatus = PENDING | UNKNOWN | SENT

record OutgoingTransaction =
  amount :: int
  out_to :: string
  privateKey :: string
  meta :: "(string \<times> string) list"
  ud :: string

text \<open>
  The two UUIDs of an outbox entry are drawn from \<^verbatim>\<open>uuid4\<close>, whose generator
  hashes its state with a SHA-256 that is not part of the sources. The generator is
  therefore kept abstract: its state is a counter, a UUID is the counter's value at the
  draw, and nothing below depends on the values drawn.
\<close>

type_synonym uuid = nat

record OutboxEntry =
  status :: OutboxStatus
  transaction :: OutgoingTransaction
  entry_id :: uuid
  ref :: uuid

record Boxes =
  revision :: int
  inbox :: "ApiTransaction option"
  outbox :: "OutboxEntry list"

record StoredState =
  endpoint :: string
  includeMined :: bool
  address :: "string option"
  lastPoppedId :: int
  committed :: Boxes
  prepared :: "Boxes option"

subsection \<open>Errors\<close>

datatype HookContextStatus = UNCOMMITTED | PREPARED | COMMITTED | ABORTED

datatype error =
    NotADirectory              \<comment> \<open>\<^verbatim>\<open>"not a directory: " + dir\<close>\<close>
  | NotAStateDirectory         \<comment> \<open>\<^verbatim>\<open>"not a valid state directory: " + dir\<close>\<close>
  | CouldNotOpen               \<comment> \<open>\<^verbatim>\<open>"couldn't open state at " + dir\<close>\<close>
  | AssertionFailed            \<comment> \<open>a failed \<^verbatim>\<open>assert\<close>\<close>
  | FsError                    \<comment> \<open>an error raised by the \<^verbatim>\<open>fs\<close> API\<close>
  | StatusError HookContextStatus  \<comment> \<open>\<^verbatim>\<open>status + " box views can't be " + s\<close>\<close>
  | ExpectFailed               \<comment> \<open>a failed \<^verbatim>\<open>expect.field\<close>\<close>
  | CallFailed                 \<comment> \<open>\<^verbatim>\<open>pcall\<close> of a value that is not callable\<close>
  | UserError string           \<comment> \<open>an error thrown by user code\<close>
  | JsonError                  \<comment> \<open>\<^verbatim>\<open>"JSON error URL: " + url\<close>\<close>
  | UnexpectedApiError         \<comment> \<open>\<^verbatim>\<open>expectOk\<close> on a body that is not ok\<close>
  | InconsistentErrorValue     \<comment> \<open>\<^verbatim>\<open>"server returned an inconsistent error value"\<close>\<close>

section \<open>The state store (\<^verbatim>\<open>state.ts\<close>)\<close>

subsection \<open>The state directory\<close>

text \<open>
  The three file names of the state directory. A file holds either the complete
  serialisation of a state document or an incomplete one (\<open>Torn\<close>: the file was
  opened for writing, which truncates it, and the write did not finish).
  \<^verbatim>\<open>textutils.unserialize\<close> inverts \<^verbatim>\<open>textutils.serialize\<close> on a complete
  file and returns \<^verbatim>\<open>nil\<close> on an incomplete one.
\<close>

datatype path = PATH | PATH_MOD | PATH_NEW

datatype content = Complete StoredState | Torn

record Dir =
  isDir :: bool
  files :: "path \<rightharpoonup> content"

definition unserialize :: "content \<Rightarrow> StoredState option" where
  "unserialize c = (case c of Complete s \<Rightarrow> Some s | Torn \<Rightarrow> None)"

definition fs_exists :: "Dir \<Rightarrow> path \<Rightarrow> bool" where
  "fs_exists d p = (files d p \<noteq> None)"

text \<open>\<^verbatim>\<open>fs.delete\<close> of a missing file does nothing.\<close>

definition fs_delete :: "Dir \<Rightarrow> path \<Rightarrow> Dir" where
  "fs_delete d p = d\<lparr> files := (files d)(p := None) \<rparr>"

text \<open>\<^verbatim>\<open>fs.move\<close> raises when the source is missing or the destination exists.\<close>

definition fs_move :: "Dir \<Rightarrow> path \<Rightarrow> path \<Rightarrow> error + Dir" where
  "fs_move d src dst =
     (case files d src of
        None \<Rightarrow> Inl FsError
      | Some c \<Rightarrow>
          if fs_exists d dst then Inl FsError
          else Inr (d\<lparr> files := (files d)(src := None, dst \<mapsto> c) \<rparr>))"

text \<open>\<^verbatim>\<open>fs.open(p, "wb")\<close> creates the file or truncates it.\<close>

definition fs_open_wb :: "Dir \<Rightarrow> path \<Rightarrow> Dir" where
  "fs_open_wb d p = d\<lparr> files := (files d)(p \<mapsto> Torn) \<rparr>"

text \<open>\<^verbatim>\<open>f.write(textutils.serialize(state)); f.close()\<close>.\<close>

definition fs_write_close :: "Dir \<Rightarrow> path \<Rightarrow> StoredState \<Rightarrow> Dir" where
  "fs_write_close d p s = d\<lparr> files := (files d)(p \<mapsto> Complete s) \<rparr>"

subsection \<open>\<^verbatim>\<open>State.commit\<close>\<close>

text \<open>
  \<^verbatim>\<open>commit\<close> is a sequence of four file-system actions; a crash can stop it
  after any prefix of them.
\<close>

datatype commit_step = OpenMod | WriteMod | DeletePath | MoveModToPath

fun run_step :: "StoredState \<Rightarrow> commit_step \<Rightarrow> Dir \<Rightarrow> error + Dir" where
  "run_step s OpenMod d = Inr (fs_open_wb d PATH_MOD)"
| "run_step s WriteMod d = Inr (fs_write_close d PATH_MOD s)"
| "run_step s DeletePath d = Inr (fs_delete d PATH)"
| "run_step s MoveModToPath d = fs_move d PATH_MOD PATH"

fun run_steps :: "StoredState \<Rightarrow> commit_step list \<Rightarrow> Dir \<Rightarrow> error + Dir" where
  "run_steps s [] d = Inr d"
| "run_steps s (x # xs) d =
     (case run_step s x d of Inl e \<Rightarrow> Inl e | Inr d' \<Rightarrow> run_steps s xs d')"

definition commit_steps :: "commit_step list" where
  "commit_steps = [OpenMod, WriteMod, DeletePath, MoveModToPath]"

definition State_commit :: "StoredState \<Rightarrow> Dir \<Rightarrow> error + Dir" where
  "State_commit s d = run_steps s commit_steps d"

text \<open>The directory left behind by a commit that a crash stopped after \<open>k\<close> steps.\<close>

definition crashed_commit :: "nat \<Rightarrow> StoredState \<Rightarrow> Dir \<Rightarrow> error + Dir" where
  "crashed_commit k s d = run_steps s (take k commit_steps) d"

subsection \<open>\<^verbatim>\<open>State.open\<close>\<close>

text \<open>
  Revision recovery (the \<^verbatim>\<open>if\<close> before the state object is built): the prepared
  boxes replace the committed ones when their revision is the caller's; in either case
  no prepared boxes remain. A missing \<^verbatim>\<open>revision\<close> argument is \<^verbatim>\<open>nil\<close>, which
  equals no number.
\<close>

definition recover_revision :: "int option \<Rightarrow> StoredState \<Rightarrow> StoredState" where
  "recover_revision rv s =
     (case prepared s of
        Some p \<Rightarrow>
          if Some (revision p) = rv then s\<lparr> committed := p, prepared := None \<rparr>
          else s\<lparr> prepared := None \<rparr>
      | None \<Rightarrow> s\<lparr> prepared := None \<rparr>)"

text \<open>
  \<^verbatim>\<open>State.open\<close> returns the state held by the new \<^verbatim>\<open>State\<close> object and the
  directory as it leaves it.
\<close>

definition State_open :: "Dir \<Rightarrow> int option \<Rightarrow> error + (StoredState \<times> Dir)" where
  "State_open d rv =
     (if \<not> isDir d then Inl NotADirectory
      else
        let d1 = fs_delete d PATH_NEW in
        (case (if fs_exists d1 PATH then Inr (fs_delete d1 PATH_MOD)
               else if fs_exists d1 PATH_MOD then fs_move d1 PATH_MOD PATH
               else Inl NotAStateDirectory) of
           Inl e \<Rightarrow> Inl e
         | Inr d2 \<Rightarrow>
             (case files d2 PATH of
                None \<Rightarrow> Inl CouldNotOpen
              | Some data \<Rightarrow>
                  (case unserialize data of
                     None \<Rightarrow> Inl AssertionFailed
                   | Some s \<Rightarrow>
                       let s' = recover_revision rv s in
                       (case State_commit s' d2 of
                          Inl e \<Rightarrow> Inl e
                        | Inr d3 \<Rightarrow> Inr (s', d3))))))"

section \<open>Hook contexts (\<^verbatim>\<open>boxView.ts\<close>, \<^verbatim>\<open>mutex.ts\<close>)\<close>

subsection \<open>The world a hook runs in\<close>

text \<open>
  A \<open>World\<close> is the \<^verbatim>\<open>State\<close> object of a stream (its in-memory \<open>state\<close>, the
  directory \<open>dir\<close> it writes to, the holder of its \<open>mutex\<close>) together with the
  state of the module-level UUID generator. The \<open>trace\<close> is a ghost field: every
  operation below appends the event it performs, so that the order of effects can be
  stated. No operation reads it.
\<close>

type_synonym HeldMutex = nat

datatype event =
    DiskWrite StoredState      \<comment> \<open>\<^verbatim>\<open>State.commit\<close> wrote this document\<close>
  | HookBody                   \<comment> \<open>the user hook \<^verbatim>\<open>fn\<close> was called\<close>
  | Prepare                    \<comment> \<open>\<^verbatim>\<open>InnerHookContext.prepare\<close>\<close>
  | OnPrepareCalled int        \<comment> \<open>the user's \<^verbatim>\<open>onPrepare(revision)\<close> was called\<close>
  | Commit                     \<comment> \<open>\<^verbatim>\<open>InnerHookContext.commit\<close>\<close>
  | AfterCommitCalled          \<comment> \<open>the user's \<^verbatim>\<open>afterCommit()\<close> was called\<close>
  | Abort                      \<comment> \<open>\<^verbatim>\<open>InnerHookContext.abort\<close>\<close>
  | Unlock                     \<comment> \<open>\<^verbatim>\<open>Mutex.unlock\<close>\<close>
  | StatusSet OutboxStatus     \<comment> \<open>an assignment to \<^verbatim>\<open>outgoing.status\<close>\<close>
  | HttpSearch uuid            \<comment> \<open>a request to \<^verbatim>\<open>/search/extended?q=ref\<close>\<close>
  | HttpPost                   \<comment> \<open>a POST to \<^verbatim>\<open>/transactions/\<close>\<close>

record World =
  state :: StoredState
  dir :: Dir
  mutex :: "HeldMutex option"
  uuid_state :: nat
  trace :: "event list"

definition log :: "event \<Rightarrow> World \<Rightarrow> World" where
  "log e w = w\<lparr> trace := trace w @ [e] \<rparr>"

text \<open>\<^verbatim>\<open>this._state.commit()\<close>: the in-memory state goes to the directory.\<close>

definition commit_world :: "World \<Rightarrow> error + World" where
  "commit_world w =
     (case State_commit (state w) (dir w) of
        Inl e \<Rightarrow> Inl e
      | Inr d \<Rightarrow> Inr (log (DiskWrite (state w)) (w\<lparr> dir := d \<rparr>)))"

text \<open>\<^verbatim>\<open>Mutex.unlock(held)\<close> asserts that \<open>held\<close> is the current holder.\<close>

definition unlock :: "HeldMutex \<Rightarrow> World \<Rightarrow> error + World" where
  "unlock h w =
     (if mutex w = Some h then Inr (log Unlock (w\<lparr> mutex := None \<rparr>))
      else Inl AssertionFailed)"

text \<open>The generator: a draw returns the UUID and the generator's next state.\<close>

definition uuid4 :: "nat \<Rightarrow> uuid \<times> nat" where
  "uuid4 g = (g, Suc g)"

subsection \<open>\<^verbatim>\<open>InnerHookContext\<close>\<close>

record InnerHookContext =
  ctx_status :: HookContextStatus
  uncommitted :: Boxes
  held :: HeldMutex

text \<open>The constructor copies the committed boxes and increments the revision.\<close>

definition newInnerHookContext :: "World \<Rightarrow> HeldMutex \<Rightarrow> InnerHookContext" where
  "newInnerHookContext w heldMutex =
     \<lparr> ctx_status = UNCOMMITTED,
       uncommitted = (committed (state w))\<lparr> revision := revision (committed (state w)) + 1 \<rparr>,
       held = heldMutex \<rparr>"

definition checkStatus :: "InnerHookContext \<Rightarrow> error option" where
  "checkStatus c =
     (if ctx_status c \<noteq> UNCOMMITTED then Some (StatusError (ctx_status c)) else None)"

definition prepare :: "InnerHookContext \<Rightarrow> World \<Rightarrow> error + (int \<times> InnerHookContext \<times> World)" where
  "prepare c w =
     (case checkStatus c of
        Some e \<Rightarrow> Inl e
      | None \<Rightarrow>
          let c1 = c\<lparr> ctx_status := PREPARED \<rparr>;
              w1 = (log Prepare w)\<lparr> state := (state w)\<lparr> prepared := Some (uncommitted c1) \<rparr> \<rparr>
          in (case commit_world w1 of
                Inl e \<Rightarrow> Inl e
              | Inr w2 \<Rightarrow> Inr (revision (uncommitted c1), c1, w2)))"

definition ctx_commit :: "InnerHookContext \<Rightarrow> World \<Rightarrow> error + (InnerHookContext \<times> World)" where
  "ctx_commit c w =
     (if ctx_status c \<noteq> UNCOMMITTED \<and> ctx_status c \<noteq> PREPARED
      then Inl (StatusError (ctx_status c))
      else
        let c1 = c\<lparr> ctx_status := COMMITTED \<rparr>;
            w1 = (log Commit w)\<lparr> state := (state w)\<lparr> committed := uncommitted c1,
                                                     prepared := None \<rparr> \<rparr>
        in (case commit_world w1 of
              Inl e \<Rightarrow> Inl e
            | Inr w2 \<Rightarrow> Inr (c1, w2)))"

definition abort :: "InnerHookContext \<Rightarrow> World \<Rightarrow> error + (InnerHookContext \<times> World)" where
  "abort c w =
     (if ctx_status c \<noteq> UNCOMMITTED \<and> ctx_status c \<noteq> PREPARED
      then Inl (StatusError (ctx_status c))
      else
        let w1 = (log Abort w)\<lparr> state := (state w)\<lparr> prepared := None \<rparr> \<rparr>
        in (case commit_world w1 of
              Inl e \<Rightarrow> Inl e
            | Inr w2 \<Rightarrow> Inr (c\<lparr> ctx_status := ABORTED \<rparr>, w2)))"

subsection \<open>\<^verbatim>\<open>HookContext\<close> and user hooks\<close>

text \<open>
  A field a hook may set holds any Lua value. What the code tells apart is: \<^verbatim>\<open>nil\<close>,
  \<^verbatim>\<open>false\<close>, a function, and any other value (a number, a string, a table,
  \<^verbatim>\<open>true\<close>). A user callback is given by what calling it does: \<open>None\<close> when it
  returns, \<open>Some e\<close> when it throws \<open>e\<close>.
\<close>

datatype 'f luaval = LNil | LFalse | LOther | LFunction 'f

fun truthy :: "'f luaval \<Rightarrow> bool" where
  "truthy LNil = False"
| "truthy LFalse = False"
| "truthy LOther = True"
| "truthy (LFunction f) = True"

text \<open>\<^verbatim>\<open>expect.field(outer, name, "function", "nil")\<close> accepts exactly these.\<close>

fun is_function_or_nil :: "'f luaval \<Rightarrow> bool" where
  "is_function_or_nil LNil = True"
| "is_function_or_nil (LFunction f) = True"
| "is_function_or_nil LFalse = False"
| "is_function_or_nil LOther = False"

record HookContext =
  inner :: InnerHookContext
  onPrepare :: "(int \<Rightarrow> error option) luaval"
  afterCommit :: "(error option) luaval"

definition newHookContext :: "InnerHookContext \<Rightarrow> HookContext" where
  "newHookContext c = \<lparr> inner = c, onPrepare = LNil, afterCommit = LNil \<rparr>"

text \<open>
  \<^verbatim>\<open>enqueueSend\<close> draws the entry's id, then its ref, and appends the entry to the
  working copy.
\<close>

definition enqueueSend :: "OutgoingTransaction \<Rightarrow> HookContext \<Rightarrow> nat \<Rightarrow> error + (uuid \<times> HookContext \<times> nat)" where
  "enqueueSend tx outer g =
     (case checkStatus (inner outer) of
        Some e \<Rightarrow> Inl e
      | None \<Rightarrow>
          let (i, g1) = uuid4 g;
              (r, g2) = uuid4 g1;
              entry = \<lparr> status = PENDING, transaction = tx, entry_id = i, ref = r \<rparr>;
              c = inner outer;
              u = uncommitted c
          in Inr (i, outer\<lparr> inner := c\<lparr> uncommitted := u\<lparr> outbox := outbox u @ [entry] \<rparr> \<rparr> \<rparr>, g2))"

text \<open>
  A user hook is arbitrary code holding a \<^verbatim>\<open>HookContext\<close>. Towards the stream it can
  enqueue transactions, assign the two callback fields, and return or throw; it is
  embedded as the sequence of these actions, in the order the hook performs them. The
  body returns when the sequence ends and throws at a \<open>Throw\<close> (or at an
  \<^verbatim>\<open>enqueueSend\<close> that raises).
\<close>

datatype hook_action =
    EnqueueSend OutgoingTransaction
  | SetOnPrepare "(int \<Rightarrow> error option) luaval"
  | SetAfterCommit "(error option) luaval"
  | Throw error

fun run_hook_body :: "hook_action list \<Rightarrow> HookContext \<Rightarrow> nat \<Rightarrow> error option \<times> HookContext \<times> nat" where
  "run_hook_body [] outer g = (None, outer, g)"
| "run_hook_body (EnqueueSend tx # rest) outer g =
     (case enqueueSend tx outer g of
        Inl e \<Rightarrow> (Some e, outer, g)
      | Inr (i, outer', g') \<Rightarrow> run_hook_body rest outer' g')"
| "run_hook_body (SetOnPrepare v # rest) outer g =
     run_hook_body rest (outer\<lparr> onPrepare := v \<rparr>) g"
| "run_hook_body (SetAfterCommit v # rest) outer g =
     run_hook_body rest (outer\<lparr> afterCommit := v \<rparr>) g"
| "run_hook_body (Throw e # rest) outer g = (Some e, outer, g)"

subsection \<open>\<^verbatim>\<open>Stream._runHook\<close> (\<^verbatim>\<open>stream.ts\<close>)\<close>

text \<open>
  \<^verbatim>\<open>pcall\<close> of a callback field: a function is called (and the call is logged), any
  other value cannot be called and \<^verbatim>\<open>pcall\<close> reports the failure.
\<close>

fun pcall_onPrepare :: "(int \<Rightarrow> error option) luaval \<Rightarrow> int \<Rightarrow> World \<Rightarrow> error option \<times> World" where
  "pcall_onPrepare (LFunction f) rv w = (f rv, log (OnPrepareCalled rv) w)"
| "pcall_onPrepare v rv w = (Some CallFailed, w)"

fun pcall_afterCommit :: "(error option) luaval \<Rightarrow> World \<Rightarrow> error option \<times> World" where
  "pcall_afterCommit (LFunction r) w = (r, log AfterCommitCalled w)"
| "pcall_afterCommit v w = (Some CallFailed, w)"

text \<open>
  The result of \<^verbatim>\<open>_runHook\<close> is the error it raises, if any, with the context and
  the world as the call leaves them.

  The guarded part: the hook body, then the check of \<^verbatim>\<open>onPrepare\<close>'s type.
\<close>

definition guarded_body :: "hook_action list \<Rightarrow> HookContext \<Rightarrow> World \<Rightarrow> error option \<times> HookContext \<times> World" where
  "guarded_body fn outer w =
     (let (r, outer1, g) = run_hook_body fn outer (uuid_state w);
          w1 = (log HookBody w)\<lparr> uuid_state := g \<rparr>
      in case r of
           Some e \<Rightarrow> (Some e, outer1, w1)
         | None \<Rightarrow>
             if is_function_or_nil (onPrepare outer1) then (None, outer1, w1)
             else (Some ExpectFailed, outer1, w1))"

text \<open>\<^verbatim>\<open>throw err\<close> after \<^verbatim>\<open>inner.held.unlock()\<close>.\<close>

definition unlock_and_throw :: "error \<Rightarrow> InnerHookContext \<Rightarrow> World \<Rightarrow> error option \<times> InnerHookContext \<times> World" where
  "unlock_and_throw err c w =
     (case unlock (held c) w of
        Inl e \<Rightarrow> (Some e, c, w)
      | Inr w' \<Rightarrow> (Some err, c, w'))"

text \<open>The branch taken when the guarded part failed.\<close>

definition hook_failed :: "error \<Rightarrow> InnerHookContext \<Rightarrow> World \<Rightarrow> error option \<times> InnerHookContext \<times> World" where
  "hook_failed err c w =
     (case abort c w of
        Inl e \<Rightarrow> (Some e, c, w)
      | Inr (c', w') \<Rightarrow> unlock_and_throw err c' w')"

text \<open>The end of the successful branch: \<^verbatim>\<open>inner.commit()\<close>, then \<^verbatim>\<open>afterCommit\<close>.\<close>

definition commit_and_after :: "HookContext \<Rightarrow> InnerHookContext \<Rightarrow> World \<Rightarrow> error option \<times> InnerHookContext \<times> World" where
  "commit_and_after outer c w =
     (case ctx_commit c w of
        Inl e \<Rightarrow> (Some e, c, w)
      | Inr (c', w') \<Rightarrow>
          if truthy (afterCommit outer) then
            (case pcall_afterCommit (afterCommit outer) w' of
               (Some err, w'') \<Rightarrow> unlock_and_throw err c' w''
             | (None, w'') \<Rightarrow> (None, c', w''))
          else (None, c', w'))"

text \<open>The branch taken when the guarded part succeeded.\<close>

definition hook_succeeded :: "HookContext \<Rightarrow> World \<Rightarrow> error option \<times> InnerHookContext \<times> World" where
  "hook_succeeded outer w =
     (if truthy (onPrepare outer) then
        (case prepare (inner outer) w of
           Inl e \<Rightarrow> (Some e, inner outer, w)
         | Inr (rv, c', w') \<Rightarrow>
             (case pcall_onPrepare (onPrepare outer) rv w' of
                (Some err, w'') \<Rightarrow> unlock_and_throw err c' w''
              | (None, w'') \<Rightarrow> commit_and_after outer c' w''))
      else commit_and_after outer (inner outer) w)"

definition runHook :: "hook_action list \<Rightarrow> InnerHookContext \<Rightarrow> World \<Rightarrow> error option \<times> InnerHookContext \<times> World" where
  "runHook fn c w =
     (case guarded_body fn (newHookContext c) w of
        (None, outer, w') \<Rightarrow> hook_succeeded outer w'
      | (Some err, outer, w') \<Rightarrow> hook_failed err (inner outer) w')"

section \<open>Sending the head of the outbox (\<^verbatim>\<open>stream.ts\<close>)\<close>

subsection \<open>The node's answers\<close>

text \<open>
  The node is an oracle: each request takes the next answer of its kind. \<open>Pending\<close>
  is the result of a call that is still waiting when the answers run out (the retry
  wrapper \<^verbatim>\<open>request\<close> has no deadline here and the send loop has no bound, so
  either may go on forever).
\<close>

record ApiError =
  err_error :: string
  err_message :: "string option"

datatype body =
    BodyOk                     \<comment> \<open>JSON with \<^verbatim>\<open>ok\<close> true\<close>
  | BodyError ApiError         \<comment> \<open>JSON with \<^verbatim>\<open>ok\<close> false\<close>
  | BodyBadJson                \<comment> \<open>\<^verbatim>\<open>parseJson\<close> throws\<close>

datatype search_reply =
    SearchNotOkStatus          \<comment> \<open>a response outside 2xx: \<^verbatim>\<open>assert(handle.ok)\<close> fails\<close>
  | SearchBadJson
  | SearchApiError             \<comment> \<open>\<^verbatim>\<open>expectOk\<close> throws\<close>
  | SearchMatches int          \<comment> \<open>\<^verbatim>\<open>res.matches.transactions.metadata\<close>\<close>

datatype post_reply =
    PostResponse body          \<comment> \<open>\<^verbatim>\<open>http.post\<close> returned a response\<close>
  | PostErrorResponse body     \<comment> \<open>\<^verbatim>\<open>http.post\<close> returned an error response\<close>
  | PostNoResponse             \<comment> \<open>neither: a network error\<close>

datatype 'a res = Ret 'a | Raise error | Pending

subsection \<open>\<^verbatim>\<open>Stream._wasSent\<close>\<close>

definition wasSent :: "OutboxEntry \<Rightarrow> search_reply list \<Rightarrow> World \<Rightarrow> bool res \<times> search_reply list \<times> World" where
  "wasSent outgoing ss w =
     (if status outgoing = PENDING then (Ret False, ss, w)
      else if status outgoing = SENT then (Ret True, ss, w)
      else
        let w1 = log (HttpSearch (ref outgoing)) w in
        (case ss of
           [] \<Rightarrow> (Pending, [], w1)
         | SearchNotOkStatus # rest \<Rightarrow> (Raise AssertionFailed, rest, w1)
         | SearchBadJson # rest \<Rightarrow> (Raise JsonError, rest, w1)
         | SearchApiError # rest \<Rightarrow> (Raise UnexpectedApiError, rest, w1)
         | SearchMatches n # rest \<Rightarrow> (Ret (n \<noteq> 0), rest, w1)))"

subsection \<open>\<^verbatim>\<open>Stream._send\<close>\<close>

text \<open>
  \<^verbatim>\<open>outgoing\<close> is a reference to the head entry of the committed outbox, so an
  assignment to \<^verbatim>\<open>outgoing.status\<close> changes the state in place.
\<close>

definition outgoing_of :: "World \<Rightarrow> OutboxEntry option" where
  "outgoing_of w = (case outbox (committed (state w)) of [] \<Rightarrow> None | e # es \<Rightarrow> Some e)"

definition set_status :: "OutboxStatus \<Rightarrow> World \<Rightarrow> World" where
  "set_status st w =
     (let s = state w; c = committed s
      in log (StatusSet st)
           (w\<lparr> state := s\<lparr> committed :=
                   c\<lparr> outbox := (case outbox c of
                                   [] \<Rightarrow> []
                                 | e # es \<Rightarrow> e\<lparr> status := st \<rparr> # es) \<rparr> \<rparr> \<rparr>))"

text \<open>\<^verbatim>\<open>outgoing.status = st; this._state.commit(); return result\<close>.\<close>

definition set_commit_return :: "OutboxStatus \<Rightarrow> bool \<times> ApiError option \<Rightarrow> World \<Rightarrow> (bool \<times> ApiError option) res \<times> World" where
  "set_commit_return st result w =
     (case commit_world (set_status st w) of
        Inl e \<Rightarrow> (Raise e, set_status st w)
      | Inr w' \<Rightarrow> (Ret result, w'))"

text \<open>
  The \<^verbatim>\<open>while (true)\<close> loop: one POST per iteration. The request body (private
  key, recipient, amount and the metadata string ending in \<^verbatim>\<open>ref=\<close>) is the same in
  every iteration and does not influence the control flow; the embedding records that a
  POST was issued.
\<close>

fun send_loop :: "post_reply list \<Rightarrow> search_reply list \<Rightarrow> World \<Rightarrow> (bool \<times> ApiError option) res \<times> World" where
  "send_loop [] ss w = (Pending, log HttpPost w)"
| "send_loop (PostResponse b # ps) ss w =
     (case b of
        BodyBadJson \<Rightarrow> (Raise JsonError, log HttpPost w)
      | BodyOk \<Rightarrow> set_commit_return SENT (True, None) (log HttpPost w)
      | BodyError obj \<Rightarrow> set_commit_return PENDING (False, Some obj) (log HttpPost w))"
| "send_loop (PostErrorResponse b # ps) ss w =
     (case b of
        BodyBadJson \<Rightarrow> (Raise JsonError, log HttpPost w)
      | BodyOk \<Rightarrow> (Raise InconsistentErrorValue, log HttpPost w)
      | BodyError obj \<Rightarrow> set_commit_return PENDING (False, Some obj) (log HttpPost w))"
| "send_loop (PostNoResponse # ps) ss w =
     (case outgoing_of w of
        None \<Rightarrow> (Raise AssertionFailed, log HttpPost w)
      | Some outgoing \<Rightarrow>
          (case wasSent outgoing ss (log HttpPost w) of
             (Ret True, ss', w1) \<Rightarrow> set_commit_return SENT (True, None) w1
           | (Ret False, ss', w1) \<Rightarrow> send_loop ps ss' w1
           | (Raise e, ss', w1) \<Rightarrow> (Raise e, w1)
           | (Pending, ss', w1) \<Rightarrow> (Pending, w1)))"

definition send :: "post_reply list \<Rightarrow> search_reply list \<Rightarrow> World \<Rightarrow> (bool \<times> ApiError option) res \<times> World" where
  "send ps ss w =
     (case outgoing_of w of
        None \<Rightarrow> (Raise AssertionFailed, w)
      | Some outgoing \<Rightarrow>
          (case wasSent outgoing ss w of
             (Ret True, ss', w1) \<Rightarrow> set_commit_return SENT (True, None) w1
           | (Raise e, ss', w1) \<Rightarrow> (Raise e, w1)
           | (Pending, ss', w1) \<Rightarrow> (Pending, w1)
           | (Ret False, ss', w1) \<Rightarrow>
               (case commit_world (set_status UNKNOWN w1) of
                  Inl e \<Rightarrow> (Raise e, set_status UNKNOWN w1)
                | Inr w2 \<Rightarrow> send_loop ps ss' w2)))"

subsection \<open>The status machine of an outbox entry\<close>

text \<open>
  The machine of the data model: PENDING to UNKNOWN, UNKNOWN to PENDING, UNKNOWN to
  SENT. \<open>status_step a b\<close> holds when an assignment of \<open>b\<close> to a status that is
  \<open>a\<close> either leaves the value as it is or is one of these transitions;
  \<open>follows_machine a bs\<close> holds when assigning the values \<open>bs\<close> in order, starting
  from \<open>a\<close>, only takes such steps.
\<close>

fun status_step :: "OutboxStatus \<Rightarrow> OutboxStatus \<Rightarrow> bool" where
  "status_step PENDING UNKNOWN = True"
| "status_step UNKNOWN PENDING = True"
| "status_step UNKNOWN SENT = True"
| "status_step a b = (a = b)"

fun follows_machine :: "OutboxStatus \<Rightarrow> OutboxStatus list \<Rightarrow> bool" where
  "follows_machine a [] = True"
| "follows_machine a (b # bs) = (status_step a b \<and> follows_machine b bs)"

text \<open>The values assigned to \<^verbatim>\<open>outgoing.status\<close> in a trace, in order.\<close>

fun status_writes :: "event list \<Rightarrow> OutboxStatus list" where
  "status_writes [] = []"
| "status_writes (StatusSet st # evs) = st # status_writes evs"
| "status_writes (e # evs) = status_writes evs"

section \<open>The push socket (\<^verbatim>\<open>transactionSocket.ts\<close>)\<close>

text \<open>
  An event pulled by \<^verbatim>\<open>os.pullEvent()\<close> is a sequence of Lua values: its name,
  then its parameters. Reading past the end yields \<^verbatim>\<open>nil\<close>. The source indexes the
  event from zero.
\<close>

datatype lua = LuaNil | LuaStr string | LuaNum int

definition ev_at :: "lua list \<Rightarrow> nat \<Rightarrow> lua" where
  "ev_at ev i = (if i < length ev then ev ! i else LuaNil)"

text \<open>What the listener does for an event, as the calls it makes in order.\<close>

datatype socket_call =
    StatusCb bool              \<comment> \<open>\<^verbatim>\<open>this._statusCb(isUp)\<close>\<close>
  | Reopen                     \<comment> \<open>\<^verbatim>\<open>this._reopen()\<close>\<close>
  | SetLastPing                \<comment> \<open>\<^verbatim>\<open>this._lastPing = os.epoch("utc")\<close>\<close>
  | OnMessage lua              \<comment> \<open>\<^verbatim>\<open>this._onMessage(ev[2])\<close>\<close>
  | CancelTimer int            \<comment> \<open>\<^verbatim>\<open>os.cancelTimer(keepaliveTimer)\<close>\<close>

text \<open>
  The inner loop of \<^verbatim>\<open>listen\<close>: it pulls events until one of the three branches
  handles an event and breaks. The socket's URL (\<^verbatim>\<open>nil\<close> when there is none) does
  not change while the loop waits. The result is the calls of the branch that broke
  the loop, or \<open>None\<close> when the given events run out with the loop still pulling.
\<close>

fun await_event :: "lua list list \<Rightarrow> int \<Rightarrow> lua \<Rightarrow> socket_call list option" where
  "await_event [] keepaliveTimer url = None"
| "await_event (ev # evs) keepaliveTimer url =
     (if ev_at ev 0 = LuaStr ''timer'' \<and> ev_at ev 1 = LuaNum keepaliveTimer
      then Some [StatusCb False, Reopen]
      else if ev_at ev 0 = LuaStr ''websocket_message'' \<and> ev_at ev 1 = url
      then Some [StatusCb True, SetLastPing, OnMessage (ev_at ev 2), CancelTimer keepaliveTimer]
      else if ev_at ev 1 = LuaStr ''websocket_closed'' \<and> ev_at ev 1 = url
      then Some [StatusCb False, Reopen, CancelTimer keepaliveTimer]
      else await_event evs keepaliveTimer url)"

section \<open>Timestamps (\<^verbatim>\<open>util.ts\<close>)\<close>

text \<open>
  \<^verbatim>\<open>parseTime\<close> matches the timestamp against the Lua pattern
  \<^verbatim>\<open>^2(%d%d%d)%-(%d%d)%-(%d%d)T(%d%d):(%d%d):(%d%d%.?%d*)Z$\<close>, converts the six
  captures with \<^verbatim>\<open>tonumber\<close> and computes the seconds since the Unix epoch. Its
  arithmetic is Lua's: \<^verbatim>\<open>/\<close> is the division of floating-point numbers, not an
  integer division. The embedding computes in \<open>rat\<close>; every value that occurs for a
  timestamp with whole seconds is a multiple of a quarter below \<open>2^53\<close>, which a
  double represents exactly.
\<close>

definition DAYS :: "int list list" where
  "DAYS =
     [[0, 31, 60, 91, 121, 152, 182, 213, 244, 274, 305, 335],
      [366, 397, 425, 456, 486, 517, 547, 578, 609, 639, 670, 700],
      [731, 762, 790, 821, 851, 882, 912, 943, 974, 1004, 1035, 1065],
      [1096, 1127, 1155, 1186, 1216, 1247, 1277, 1308, 1339, 1369, 1400, 1430]]"

definition is_digit :: "char \<Rightarrow> bool" where
  "is_digit c = (48 \<le> (of_char c :: nat) \<and> (of_char c :: nat) \<le> 57)"

definition digit_value :: "char \<Rightarrow> int" where
  "digit_value c = int (of_char c) - 48"

text \<open>\<^verbatim>\<open>tonumber\<close> on a string of decimal digits.\<close>

definition tonumber :: "string \<Rightarrow> int" where
  "tonumber s = foldl (\<lambda>a c. 10 * a + digit_value c) 0 s"

text \<open>
  \<^verbatim>\<open>tonumber\<close> on the seconds capture: digits, then optionally a point and more
  digits.
\<close>

definition tonumber_decimal :: "string \<Rightarrow> rat" where
  "tonumber_decimal s =
     (let whole = takeWhile is_digit s;
          frac = (case dropWhile is_digit s of [] \<Rightarrow> [] | p # ds \<Rightarrow> ds)
      in of_int (tonumber whole) + of_int (tonumber frac) / 10 ^ length frac)"

text \<open>
  The tail of the pattern after the two digits of the seconds:
  \<^verbatim>\<open>%.?%d*Z$\<close>. The result is the part of the tail that belongs to the capture.
\<close>

definition match_seconds_tail :: "string \<Rightarrow> string option" where
  "match_seconds_tail r =
     (let point = (case r of [] \<Rightarrow> [] | c # cs \<Rightarrow> if c = CHR ''.'' then [c] else []);
          r1 = drop (length point) r;
          ds = takeWhile is_digit r1
      in if dropWhile is_digit r1 = ''Z'' then Some (point @ ds) else None)"

text \<open>\<^verbatim>\<open>string.match\<close> with the pattern: the six captures, or no match.\<close>

definition match_timestamp :: "string \<Rightarrow> (string \<times> string \<times> string \<times> string \<times> string \<times> string) option" where
  "match_timestamp t =
     (if length t < 19 then None
      else if t ! 0 = CHR ''2''
            \<and> is_digit (t ! 1) \<and> is_digit (t ! 2) \<and> is_digit (t ! 3)
            \<and> t ! 4 = CHR ''-''
            \<and> is_digit (t ! 5) \<and> is_digit (t ! 6)
            \<and> t ! 7 = CHR ''-''
            \<and> is_digit (t ! 8) \<and> is_digit (t ! 9)
            \<and> t ! 10 = CHR ''T''
            \<and> is_digit (t ! 11) \<and> is_digit (t ! 12)
            \<and> t ! 13 = CHR '':''
            \<and> is_digit (t ! 14) \<and> is_digit (t ! 15)
            \<and> t ! 16 = CHR '':''
            \<and> is_digit (t ! 17) \<and> is_digit (t ! 18)
           then (case match_seconds_tail (drop 19 t) of
                   None \<Rightarrow> None
                 | Some tail \<Rightarrow>
                     Some (take 3 (drop 1 t), take 2 (drop 5 t), take 2 (drop 8 t),
                           take 2 (drop 11 t), take 2 (drop 14 t), take 2 (drop 17 t) @ tail))
      else None)"

text \<open>
  \<^verbatim>\<open>parseTime\<close>. A timestamp that does not match makes \<^verbatim>\<open>tonumber\<close> fail, and a
  month outside \<open>01\<close> to \<open>12\<close> indexes \<^verbatim>\<open>DAYS\<close> out of range and the addition
  fails on \<^verbatim>\<open>nil\<close>: both are \<open>None\<close>.
\<close>

definition parseTime :: "string \<Rightarrow> rat option" where
  "parseTime timestamp =
     (case match_timestamp timestamp of
        None \<Rightarrow> None
      | Some (sYear, sMonth, sDay, sHour, sMinute, sSecond) \<Rightarrow>
          let year = tonumber sYear;
              month = tonumber sMonth - 1;
              day = tonumber sDay - 1;
              hour = tonumber sHour;
              minute = tonumber sMinute;
              second = tonumber_decimal sSecond
          in if month < 0 \<or> 11 < month then None
             else
               let days = of_int year / 4 * (365 * 4 + 1)
                            + of_int (DAYS ! nat (year mod 4) ! nat month) + of_int day;
                   hours = days * 24 + of_int hour;
                   minutes = hours * 60 + of_int minute;
                   seconds = minutes * 60 + second
               in Some (seconds + 946684800))"

section \<open>Concrete inputs\<close>

text \<open>Small concrete values on which the theorems below are instantiated.\<close>

definition ex_tx :: "int \<Rightarrow> ApiTransaction" where
  "ex_tx i =
     \<lparr> tx_id = i, tx_from = Some ''kfrom00000'', tx_to = ''kto0000000'', tx_value = 5,
       tx_time = ''2024-01-01T00:00:00Z'', tx_name = None, tx_metadata = None,
       tx_sent_metaname = None, tx_sent_name = None, tx_type = ''transfer'' \<rparr>"

definition ex_stream :: "bool \<Rightarrow> TransactionStream" where
  "ex_stream tail =
     \<lparr> s_queue = newTransactionQueue \<lparr> set_includeMined = True, set_address = None \<rparr> 5,
       hasReachedTail = tail, hasTailHole = False, s_isUp = True \<rparr>"

definition ex_out :: OutgoingTransaction where
  "ex_out =
     \<lparr> amount = 5, out_to = ''kto0000000'', privateKey = ''secret'',
       meta = [(''message'', ''hi'')], ud = ''none'' \<rparr>"

definition ex_entry :: "OutboxStatus \<Rightarrow> OutboxEntry" where
  "ex_entry st = \<lparr> status = st, transaction = ex_out, entry_id = 1, ref = 2 \<rparr>"

definition ex_committed :: Boxes where
  "ex_committed = \<lparr> revision = 3, inbox = Some (ex_tx 7), outbox = [] \<rparr>"

definition ex_prepared :: Boxes where
  "ex_prepared = \<lparr> revision = 4, inbox = None, outbox = [ex_entry PENDING] \<rparr>"

definition ex_doc :: "Boxes \<Rightarrow> Boxes option \<Rightarrow> StoredState" where
  "ex_doc c p =
     \<lparr> endpoint = ''https://krist.dev'', includeMined = False, address = None,
       lastPoppedId = 7, committed = c, prepared = p \<rparr>"

definition ex_dir :: "content option \<Rightarrow> content option \<Rightarrow> Dir" where
  "ex_dir a b = \<lparr> isDir = True, files = (\<lambda>p. None)(PATH := a, PATH_MOD := b) \<rparr>"

definition ex_world :: World where
  "ex_world =
     \<lparr> state = ex_doc ex_committed None,
       dir = ex_dir (Some (Complete (ex_doc ex_committed None))) None,
       mutex = Some 0, uuid_state = 10, trace = [] \<rparr>"

definition ex_hook_throws :: "hook_action list" where
  "ex_hook_throws = [EnqueueSend ex_out, Throw (UserError ''boom'')]"

definition ex_hook_bad_onPrepare :: "hook_action list" where
  "ex_hook_bad_onPrepare = [EnqueueSend ex_out, SetOnPrepare LOther]"

definition ex_hook_afterCommit_throws :: "hook_action list" where
  "ex_hook_afterCommit_throws =
     [EnqueueSend ex_out, SetAfterCommit (LFunction (Some (UserError ''late'')))]"

definition ex_send_world :: "OutboxStatus \<Rightarrow> World" where
  "ex_send_world st =
     \<lparr> state = ex_doc \<lparr> revision = 4, inbox = None, outbox = [ex_entry st] \<rparr> None,
       dir = ex_dir (Some (Complete
               (ex_doc \<lparr> revision = 4, inbox = None, outbox = [ex_entry st] \<rparr> None))) None,
       mutex = Some 0, uuid_state = 10, trace = [] \<rparr>"

section \<open>Theorems\<close>

subsection \<open>Socket pushes\<close>

lemma tryPushTransaction_accepts:
  "fst (tryPushTransaction q tx) = (tx_id tx = lastSeenId q + 1)"
  by (simp add: tryPushTransaction_def Let_def)

lemma tryPushTransaction_lastSeenId:
  "lastSeenId (snd (tryPushTransaction q tx)) =
     (if tx_id tx = lastSeenId q + 1 then lastSeenId q + 1 else lastSeenId q)"
  by (simp add: tryPushTransaction_def Let_def)

text \<open>
  Claim C8. \<^verbatim>\<open>tryPushTransaction(tx)\<close> succeeds exactly when
  \<open>tx.id = lastSeenId + 1\<close>, and a success advances \<open>lastSeenId\<close> by one (a
  rejection leaves the queue as it was). In the stream's push callback a successful
  push sets \<open>hasReachedTail\<close> and clears \<open>hasTailHole\<close>; a rejected push made while
  \<open>hasReachedTail\<close> is set sets \<open>hasTailHole\<close>.
\<close>

theorem push_contiguity_and_tail_flags:
  "(fst (tryPushTransaction q tx) \<longleftrightarrow> tx_id tx = lastSeenId q + 1)
   \<and> (fst (tryPushTransaction q tx) \<longrightarrow>
        lastSeenId (snd (tryPushTransaction q tx)) = lastSeenId q + 1)
   \<and> (\<not> fst (tryPushTransaction q tx) \<longrightarrow> snd (tryPushTransaction q tx) = q)
   \<and> (fst (tryPushTransaction (s_queue s) tx) \<longrightarrow>
        hasReachedTail (transactionCb s tx) \<and> \<not> hasTailHole (transactionCb s tx))
   \<and> (\<not> fst (tryPushTransaction (s_queue s) tx) \<and> hasReachedTail s \<longrightarrow>
        hasTailHole (transactionCb s tx))"
  by (simp add: tryPushTransaction_def transactionCb_def Let_def)

theorem push_contiguity_and_tail_flags_witness:
  "fst (tryPushTransaction (s_queue (ex_stream False)) (ex_tx 6))
   \<and> lastSeenId (snd (tryPushTransaction (s_queue (ex_stream False)) (ex_tx 6))) = 6
   \<and> hasReachedTail (transactionCb (ex_stream False) (ex_tx 6))
   \<and> \<not> hasTailHole (transactionCb (ex_stream False) (ex_tx 6))
   \<and> \<not> fst (tryPushTransaction (s_queue (ex_stream True)) (ex_tx 8))
   \<and> snd (tryPushTransaction (s_queue (ex_stream True)) (ex_tx 8)) = s_queue (ex_stream True)
   \<and> hasTailHole (transactionCb (ex_stream True) (ex_tx 8))"
  using push_contiguity_and_tail_flags [of "s_queue (ex_stream False)" "ex_tx 6" "ex_stream False"]
        push_contiguity_and_tail_flags [of "s_queue (ex_stream True)" "ex_tx 8" "ex_stream True"]
  by (simp add: ex_stream_def ex_tx_def newTransactionQueue_def)

subsection \<open>The state store\<close>

text \<open>A commit never fails: the canonical file was deleted before the rename.\<close>

lemma State_commit_ok:
  "State_commit s d =
     Inr (d\<lparr> files := (files d)(PATH_MOD := None, PATH \<mapsto> Complete s) \<rparr>)"
  by (simp add: State_commit_def commit_steps_def fs_open_wb_def fs_write_close_def
      fs_delete_def fs_move_def fs_exists_def fun_upd_twist)

text \<open>
  What \<^verbatim>\<open>open\<close> does on a directory whose canonical file, or else whose pending
  file, holds a complete document.
\<close>

lemma State_open_reads:
  assumes "isDir d"
    and "files d PATH = Some (Complete doc)
         \<or> (files d PATH = None \<and> files d PATH_MOD = Some (Complete doc))"
  shows "State_open d rv =
    Inr (recover_revision rv doc,
         d\<lparr> files := (files d)(PATH_NEW := None, PATH_MOD := None,
                               PATH \<mapsto> Complete (recover_revision rv doc)) \<rparr>)"
  using assms
  by (auto simp add: State_open_def State_commit_ok Let_def fs_delete_def fs_move_def
      fs_exists_def unserialize_def fun_upd_twist split: option.splits content.splits)

text \<open>
  Claim C1. For every state document \<open>doc\<close> stored in the directory (in the canonical
  file, or in the pending file when the canonical one is missing) and every optional
  revision \<open>rv\<close>, \<^verbatim>\<open>State.open\<close> returns a state whose committed boxes are the
  document's prepared boxes when those exist and carry revision \<open>rv\<close>, and the
  document's committed boxes otherwise; no prepared boxes remain, the other fields are
  the document's, and on return the canonical file holds exactly the returned state
  (the pending and the new file are gone).
\<close>

theorem open_recovers_revision:
  assumes "isDir d"
    and "files d PATH = Some (Complete doc)
         \<or> (files d PATH = None \<and> files d PATH_MOD = Some (Complete doc))"
  shows "\<exists>s d'. State_open d rv = Inr (s, d')
          \<and> committed s =
              (case prepared doc of
                 Some p \<Rightarrow> if rv = Some (revision p) then p else committed doc
               | None \<Rightarrow> committed doc)
          \<and> prepared s = None
          \<and> endpoint s = endpoint doc \<and> includeMined s = includeMined doc
          \<and> address s = address doc \<and> lastPoppedId s = lastPoppedId doc
          \<and> files d' PATH = Some (Complete s)
          \<and> files d' PATH_MOD = None \<and> files d' PATH_NEW = None"
  using State_open_reads [OF assms, of rv]
  by (auto simp: recover_revision_def split: option.splits)

theorem open_recovers_revision_witness:
  "isDir (ex_dir (Some (Complete (ex_doc ex_committed (Some ex_prepared)))) None)
   \<and> files (ex_dir (Some (Complete (ex_doc ex_committed (Some ex_prepared)))) None) PATH
       = Some (Complete (ex_doc ex_committed (Some ex_prepared)))
   \<and> (\<exists>s d'. State_open (ex_dir (Some (Complete (ex_doc ex_committed (Some ex_prepared)))) None)
                 (Some 4) = Inr (s, d')
         \<and> committed s = ex_prepared \<and> prepared s = None
         \<and> files d' PATH = Some (Complete s))
   \<and> (\<exists>s d'. State_open (ex_dir (Some (Complete (ex_doc ex_committed (Some ex_prepared)))) None)
                 None = Inr (s, d')
         \<and> committed s = ex_committed \<and> prepared s = None
         \<and> files d' PATH = Some (Complete s))"
proof -
  let ?doc = "ex_doc ex_committed (Some ex_prepared)"
  let ?d = "ex_dir (Some (Complete ?doc)) None"
  have h1: "isDir ?d"
    by (simp add: ex_dir_def)
  have h2: "files ?d PATH = Some (Complete ?doc)"
    by (simp add: ex_dir_def)
  have p: "prepared ?doc = Some ex_prepared" "committed ?doc = ex_committed"
    "revision ex_prepared = 4"
    by (simp_all add: ex_doc_def ex_prepared_def)
  show ?thesis
    using h1 h2 open_recovers_revision [OF h1 disjI1 [OF h2], of "Some 4"]
      open_recovers_revision [OF h1 disjI1 [OF h2], of None]
    by (auto simp: p)
qed

text \<open>The directory after each prefix of a commit's steps.\<close>

lemma crashed_commit_cases:
  assumes "files d PATH = Some (Complete old)" and "k \<le> length commit_steps"
  shows "\<exists>d'. crashed_commit k new d = Inr d' \<and> isDir d' = isDir d
          \<and> (files d' PATH = Some (Complete old)
              \<or> files d' PATH = Some (Complete new)
              \<or> (files d' PATH = None \<and> files d' PATH_MOD = Some (Complete new)))"
proof -
  from assms(2) have "k = 0 \<or> k = 1 \<or> k = 2 \<or> k = 3 \<or> k = 4"
    by (auto simp: commit_steps_def)
  then show ?thesis
    using assms(1)
    by (auto simp: crashed_commit_def commit_steps_def eval_nat_numeral
        fs_open_wb_def fs_write_close_def fs_delete_def fs_move_def fs_exists_def)
qed

lemma recover_revision_no_prepared:
  "prepared x = None \<Longrightarrow> recover_revision rv x = x"
  by (simp add: recover_revision_def)

text \<open>
  The claim as the specification words it fails when the interrupted commit is the one
  \<^verbatim>\<open>prepare()\<close> makes. Let the canonical file hold a state without prepared boxes,
  let the state being committed hold prepared boxes of revision 4, and let the crash
  come after the canonical file was deleted and before the rename. \<^verbatim>\<open>State.open\<close>
  with revision 4 then returns the state whose committed boxes are the prepared ones
  and which holds no prepared boxes: neither the state before the commit nor the state
  that was written.
\<close>

theorem open_after_crashed_prepare_is_neither:
  "isDir (ex_dir (Some (Complete (ex_doc ex_committed None))) None)
   \<and> files (ex_dir (Some (Complete (ex_doc ex_committed None))) None) PATH
       = Some (Complete (ex_doc ex_committed None))
   \<and> crashed_commit 3 (ex_doc ex_committed (Some ex_prepared))
         (ex_dir (Some (Complete (ex_doc ex_committed None))) None)
       = Inr (projr (crashed_commit 3 (ex_doc ex_committed (Some ex_prepared))
                      (ex_dir (Some (Complete (ex_doc ex_committed None))) None)))
   \<and> map_sum id fst
         (State_open
            (projr (crashed_commit 3 (ex_doc ex_committed (Some ex_prepared))
                      (ex_dir (Some (Complete (ex_doc ex_committed None))) None)))
            (Some 4))
       = Inr (ex_doc ex_prepared None)
   \<and> ex_doc ex_prepared None \<noteq> ex_doc ex_committed None
   \<and> ex_doc ex_prepared None \<noteq> ex_doc ex_committed (Some ex_prepared)"
proof -
  let ?old = "ex_doc ex_committed None"
  let ?new = "ex_doc ex_committed (Some ex_prepared)"
  let ?d = "ex_dir (Some (Complete ?old)) None"
  let ?d3 = "?d\<lparr> files := (files ?d)(PATH_MOD \<mapsto> Complete ?new, PATH := None) \<rparr>"
  have c: "crashed_commit 3 ?new ?d = Inr ?d3"
    by (simp add: crashed_commit_def commit_steps_def eval_nat_numeral
        fs_open_wb_def fs_write_close_def fs_delete_def)
  have dir: "isDir ?d3"
    by (simp add: ex_dir_def)
  have f: "files ?d3 PATH = None \<and> files ?d3 PATH_MOD = Some (Complete ?new)"
    by simp
  have r: "recover_revision (Some 4) ?new = ex_doc ex_prepared None"
    by (simp add: recover_revision_def ex_doc_def ex_prepared_def)
  have o: "map_sum id fst (State_open ?d3 (Some 4)) = Inr (ex_doc ex_prepared None)"
    using State_open_reads [OF dir disjI2 [OF f], of "Some 4"] by (simp add: r)
  have n: "ex_doc ex_prepared None \<noteq> ?old" "ex_doc ex_prepared None \<noteq> ?new"
    by (simp_all add: ex_doc_def ex_prepared_def ex_committed_def)
  show ?thesis
    using c o n by (simp add: ex_dir_def)
qed

text \<open>
  Claim C2, amended. Start from a directory whose canonical file holds a complete
  state \<open>old\<close>, and let a crash stop \<^verbatim>\<open>State.commit\<close> of \<open>new\<close> after any prefix
  of its steps (open the pending file, write it, delete the canonical file, rename).
  Then the canonical or the pending file holds a complete serialised state, and a
  subsequent \<^verbatim>\<open>State.open\<close> with revision \<open>rv\<close> succeeds and returns the state
  before the commit or the newly written state as revision recovery leaves it: with
  the prepared boxes promoted to committed when their revision is \<open>rv\<close>, and
  discarded otherwise. When neither state holds prepared boxes, the returned state is
  the state before the commit or the newly written state itself.
\<close>

theorem commit_crash_recoverable:
  assumes "isDir d" and "files d PATH = Some (Complete old)"
    and "k \<le> length commit_steps"
  shows "\<exists>d'. crashed_commit k new d = Inr d'
          \<and> ((\<exists>s. files d' PATH = Some (Complete s))
              \<or> (\<exists>s. files d' PATH_MOD = Some (Complete s)))
          \<and> (\<exists>s d''. State_open d' rv = Inr (s, d'')
                \<and> (s = recover_revision rv old \<or> s = recover_revision rv new)
                \<and> (prepared old = None \<and> prepared new = None \<longrightarrow> s = old \<or> s = new))"
proof -
  obtain d' where c: "crashed_commit k new d = Inr d'" and dir: "isDir d'"
    and f: "files d' PATH = Some (Complete old)
              \<or> files d' PATH = Some (Complete new)
              \<or> (files d' PATH = None \<and> files d' PATH_MOD = Some (Complete new))"
    using crashed_commit_cases [OF assms(2,3), of new] assms(1) by auto
  from f consider
      "files d' PATH = Some (Complete old)"
    | "files d' PATH = Some (Complete new)
        \<or> (files d' PATH = None \<and> files d' PATH_MOD = Some (Complete new))"
    by blast
  then show ?thesis
  proof cases
    case 1
    then show ?thesis
      using c State_open_reads [OF dir, of old rv]
      by (auto simp: recover_revision_no_prepared)
  next
    case 2
    then show ?thesis
      using c State_open_reads [OF dir, of new rv]
      by (auto simp: recover_revision_no_prepared)
  qed
qed

theorem commit_crash_recoverable_witness:
  "isDir (ex_dir (Some (Complete (ex_doc ex_committed None))) None)
   \<and> files (ex_dir (Some (Complete (ex_doc ex_committed None))) None) PATH
       = Some (Complete (ex_doc ex_committed None))
   \<and> 3 \<le> length commit_steps
   \<and> (\<exists>d'. crashed_commit 3 (ex_doc ex_prepared None)
              (ex_dir (Some (Complete (ex_doc ex_committed None))) None) = Inr d'
          \<and> ((\<exists>s. files d' PATH = Some (Complete s))
              \<or> (\<exists>s. files d' PATH_MOD = Some (Complete s)))
          \<and> (\<exists>s d''. State_open d' None = Inr (s, d'')
                \<and> (s = ex_doc ex_committed None \<or> s = ex_doc ex_prepared None)))
   \<and> (\<exists>d'. crashed_commit 3 (ex_doc ex_committed (Some ex_prepared))
              (ex_dir (Some (Complete (ex_doc ex_committed None))) None) = Inr d'
          \<and> (\<exists>s d''. State_open d' (Some 4) = Inr (s, d'')
                \<and> (s = recover_revision (Some 4) (ex_doc ex_committed None)
                     \<or> s = recover_revision (Some 4) (ex_doc ex_committed (Some ex_prepared)))))"
proof -
  let ?old = "ex_doc ex_committed None"
  let ?new = "ex_doc ex_prepared None"
  let ?d = "ex_dir (Some (Complete ?old)) None"
  have h1: "isDir ?d"
    by (simp add: ex_dir_def)
  have h2: "files ?d PATH = Some (Complete ?old)"
    by (simp add: ex_dir_def)
  have h3: "3 \<le> length commit_steps"
    by (simp add: commit_steps_def)
  have p: "prepared ?old = None" "prepared ?new = None"
    by (simp_all add: ex_doc_def)
  show ?thesis
    using h1 h2 h3 commit_crash_recoverable [OF h1 h2 h3, of ?new None]
      commit_crash_recoverable [OF h1 h2 h3, of "ex_doc ex_committed (Some ex_prepared)" "Some 4"]
    by (auto simp: p)
qed

subsection \<open>Hook execution\<close>

lemma commit_world_ok:
  "commit_world w =
     Inr (w\<lparr> dir := (dir w)\<lparr> files := (files (dir w))(PATH_MOD := None, PATH \<mapsto> Complete (state w)) \<rparr>,
            trace := trace w @ [DiskWrite (state w)] \<rparr>)"
  by (simp add: commit_world_def State_commit_ok log_def)

text \<open>A hook body changes neither the status nor the mutex token of its context.\<close>

lemma run_hook_body_inner:
  "run_hook_body fn outer g = (r, outer', g') \<Longrightarrow>
     ctx_status (inner outer') = ctx_status (inner outer) \<and> held (inner outer') = held (inner outer)"
proof (induction fn outer g rule: run_hook_body.induct)
  case (2 tx rest outer g)
  then show ?case
    by (auto simp: enqueueSend_def checkStatus_def uuid4_def Let_def split: sum.splits if_splits)
qed auto

lemma abort_ok:
  assumes "ctx_status c = UNCOMMITTED"
  shows "abort c w =
     Inr (c\<lparr> ctx_status := ABORTED \<rparr>,
          w\<lparr> state := (state w)\<lparr> prepared := None \<rparr>,
             dir := (dir w)\<lparr> files := (files (dir w))
                      (PATH_MOD := None, PATH \<mapsto> Complete ((state w)\<lparr> prepared := None \<rparr>)) \<rparr>,
             trace := trace w @ [Abort, DiskWrite ((state w)\<lparr> prepared := None \<rparr>)] \<rparr>)"
  using assms by (simp add: abort_def commit_world_ok log_def Let_def)

lemma hook_failed_ok:
  assumes "ctx_status c = UNCOMMITTED" and "mutex w = Some (held c)"
  shows "hook_failed err c w =
     (Some err, c\<lparr> ctx_status := ABORTED \<rparr>,
      w\<lparr> state := (state w)\<lparr> prepared := None \<rparr>,
         dir := (dir w)\<lparr> files := (files (dir w))
                  (PATH_MOD := None, PATH \<mapsto> Complete ((state w)\<lparr> prepared := None \<rparr>)) \<rparr>,
         mutex := None,
         trace := trace w @ [Abort, DiskWrite ((state w)\<lparr> prepared := None \<rparr>), Unlock] \<rparr>)"
  using assms
  by (simp add: hook_failed_def abort_ok unlock_and_throw_def unlock_def log_def)

lemma guarded_body_inner:
  assumes "guarded_body fn (newHookContext c) w = (r, outer, w')"
  shows "ctx_status (inner outer) = ctx_status c \<and> held (inner outer) = held c
         \<and> state w' = state w \<and> dir w' = dir w \<and> mutex w' = mutex w
         \<and> trace w' = trace w @ [HookBody]"
proof -
  obtain rb outer' g' where b: "run_hook_body fn (newHookContext c) (uuid_state w) = (rb, outer', g')"
    by (cases "run_hook_body fn (newHookContext c) (uuid_state w)") auto
  from run_hook_body_inner [OF b]
  have i: "ctx_status (inner outer') = ctx_status c" "held (inner outer') = held c"
    by (simp_all add: newHookContext_def)
  show ?thesis
    using assms i
    by (auto simp: guarded_body_def b log_def Let_def split: option.splits if_splits)
qed

lemma commit_and_after_ok:
  assumes "ctx_status c = UNCOMMITTED \<or> ctx_status c = PREPARED"
    and "mutex w = Some (held c)"
    and "commit_and_after outer c w = (r, c', w')"
  shows "\<exists>evs. trace w' = trace w @ Commit # DiskWrite (state w') # evs
          \<and> state w' = (state w)\<lparr> committed := uncommitted c, prepared := None \<rparr>
          \<and> files (dir w') PATH = Some (Complete (state w'))
          \<and> (evs = [] \<or> evs = [AfterCommitCalled] \<or> evs = [AfterCommitCalled, Unlock]
               \<or> evs = [Unlock])
          \<and> (\<forall>e. afterCommit outer = LFunction (Some e) \<longrightarrow>
                 r = Some e \<and> mutex w' = None \<and> evs = [AfterCommitCalled, Unlock])"
  using assms
  by (cases "afterCommit outer")
     (auto simp: commit_and_after_def ctx_commit_def commit_world_ok log_def Let_def
        unlock_and_throw_def unlock_def split: option.splits)

lemma hook_succeeded_ok:
  assumes "ctx_status (inner outer) = UNCOMMITTED"
    and "mutex w = Some (held (inner outer))"
    and "is_function_or_nil (onPrepare outer)"
    and "hook_succeeded outer w = (r, c', w')"
  shows "\<exists>evs. trace w' = trace w @ evs
          \<and> count_list evs AfterCommitCalled \<le> 1
          \<and> count_list evs HookBody = 0
          \<and> (AfterCommitCalled \<in> set evs \<longrightarrow>
                sublist [Commit, DiskWrite (state w'), AfterCommitCalled] evs
                \<and> state w' = (state w)\<lparr> committed := uncommitted (inner outer), prepared := None \<rparr>
                \<and> files (dir w') PATH = Some (Complete (state w')))
          \<and> (\<forall>e. (onPrepare outer = LNil
                    \<or> (\<exists>f. onPrepare outer = LFunction f
                           \<and> f (revision (uncommitted (inner outer))) = None))
                  \<and> afterCommit outer = LFunction (Some e) \<longrightarrow>
                 r = Some e \<and> mutex w' = None \<and> AfterCommitCalled \<in> set evs)"
proof (cases "onPrepare outer")
  case LNil
  then have h: "commit_and_after outer (inner outer) w = (r, c', w')"
    using assms(4) by (simp add: hook_succeeded_def)
  from commit_and_after_ok [OF disjI1 [OF assms(1)] assms(2) h] LNil
  show ?thesis
    by (auto simp: sublist_Cons_right)
next
  case (LFunction f)
  let ?u = "uncommitted (inner outer)"
  let ?sp = "(state w)\<lparr> prepared := Some ?u \<rparr>"
  let ?c1 = "(inner outer)\<lparr> ctx_status := PREPARED \<rparr>"
  let ?w1 = "w\<lparr> state := ?sp,
               dir := (dir w)\<lparr> files := (files (dir w))(PATH_MOD := None, PATH \<mapsto> Complete ?sp) \<rparr>,
               trace := trace w @ [Prepare, DiskWrite ?sp, OnPrepareCalled (revision ?u)] \<rparr>"
  have p: "prepare (inner outer) w =
             Inr (revision ?u, ?c1,
                  w\<lparr> state := ?sp,
                     dir := (dir w)\<lparr> files := (files (dir w))(PATH_MOD := None, PATH \<mapsto> Complete ?sp) \<rparr>,
                     trace := trace w @ [Prepare, DiskWrite ?sp] \<rparr>)"
    using assms(1) by (simp add: prepare_def checkStatus_def commit_world_ok log_def Let_def)
  show ?thesis
  proof (cases "f (revision ?u)")
    case None
    then have h: "commit_and_after outer ?c1 ?w1 = (r, c', w')"
      using assms(4) LFunction by (simp add: hook_succeeded_def p log_def)
    have "ctx_status ?c1 = UNCOMMITTED \<or> ctx_status ?c1 = PREPARED" by simp
    moreover have "mutex ?w1 = Some (held ?c1)" using assms(2) by simp
    ultimately show ?thesis
      using commit_and_after_ok [of ?c1 ?w1 outer r c' w'] h LFunction None
      by (auto simp: sublist_Cons_right)
  next
    case (Some err)
    then show ?thesis
      using assms(2,4) LFunction
      by (auto simp: hook_succeeded_def p log_def unlock_and_throw_def unlock_def)
  qed
qed (use assms(3) in auto)

text \<open>
  Claim C3. When the user hook throws \<open>err\<close>, \<^verbatim>\<open>_runHook\<close> aborts the context:
  the state afterwards is the state before the hook with no prepared boxes, so the
  committed boxes are unchanged (nothing the hook enqueued and no inbox change
  persists); that state is what the canonical file holds; the mutex is released; and
  the error raised to the caller is \<open>err\<close>.
\<close>

theorem hook_failure_aborts:
  assumes "fst (run_hook_body fn (newHookContext c) (uuid_state w)) = Some err"
    and "ctx_status c = UNCOMMITTED" and "mutex w = Some (held c)"
  shows "\<exists>c' w'. runHook fn c w = (Some err, c', w')
          \<and> state w' = (state w)\<lparr> prepared := None \<rparr>
          \<and> committed (state w') = committed (state w)
          \<and> prepared (state w') = None
          \<and> ctx_status c' = ABORTED
          \<and> files (dir w') PATH = Some (Complete (state w'))
          \<and> mutex w' = None"
proof -
  obtain outer' g' where b: "run_hook_body fn (newHookContext c) (uuid_state w) = (Some err, outer', g')"
    using assms(1) by (cases "run_hook_body fn (newHookContext c) (uuid_state w)") auto
  from run_hook_body_inner [OF b] assms(2,3)
  have i: "ctx_status (inner outer') = UNCOMMITTED" "held (inner outer') = held c"
    by (simp_all add: newHookContext_def)
  have g: "guarded_body fn (newHookContext c) w =
             (Some err, outer', (log HookBody w)\<lparr> uuid_state := g' \<rparr>)"
    by (simp add: guarded_body_def b)
  show ?thesis
    using i assms(3)
    by (simp add: runHook_def g hook_failed_ok log_def)
qed

theorem hook_failure_aborts_witness:
  "fst (run_hook_body ex_hook_throws (newHookContext (newInnerHookContext ex_world 0))
          (uuid_state ex_world)) = Some (UserError ''boom'')
   \<and> ctx_status (newInnerHookContext ex_world 0) = UNCOMMITTED
   \<and> mutex ex_world = Some (held (newInnerHookContext ex_world 0))
   \<and> (\<exists>c' w'. runHook ex_hook_throws (newInnerHookContext ex_world 0) ex_world
                  = (Some (UserError ''boom''), c', w')
          \<and> state w' = ex_doc ex_committed None
          \<and> outbox (committed (state w')) = []
          \<and> inbox (committed (state w')) = Some (ex_tx 7)
          \<and> prepared (state w') = None
          \<and> ctx_status c' = ABORTED
          \<and> files (dir w') PATH = Some (Complete (ex_doc ex_committed None))
          \<and> mutex w' = None)"
proof -
  let ?c = "newInnerHookContext ex_world 0"
  have t: "fst (run_hook_body ex_hook_throws (newHookContext ?c) (uuid_state ex_world))
             = Some (UserError ''boom'')"
    by (simp add: ex_hook_throws_def enqueueSend_def checkStatus_def uuid4_def
        newHookContext_def newInnerHookContext_def Let_def)
  have s: "ctx_status ?c = UNCOMMITTED"
    by (simp add: newInnerHookContext_def)
  have m: "mutex ex_world = Some (held ?c)"
    by (simp add: newInnerHookContext_def ex_world_def)
  have w: "(state ex_world)\<lparr> prepared := None \<rparr> = ex_doc ex_committed None"
    "outbox (committed (state ex_world)) = []"
    "inbox (committed (state ex_world)) = Some (ex_tx 7)"
    by (simp_all add: ex_world_def ex_doc_def ex_committed_def)
  show ?thesis
    using t s m hook_failure_aborts [OF t s m]
    by (auto simp: w)
qed

text \<open>
  Claim C10. When the hook body returns normally but leaves \<^verbatim>\<open>ctx.onPrepare\<close> set
  to a value that is neither a function nor \<^verbatim>\<open>nil\<close>, \<^verbatim>\<open>_runHook\<close> treats the run
  as a failed hook: the context is aborted (the state is the one before the hook with
  no prepared boxes, so nothing enqueued persists), that state is on disk, the mutex is
  released and an error is raised; the events of the run are the hook body, the abort
  with its disk write, and the unlock, so neither \<^verbatim>\<open>prepare()\<close> nor
  \<^verbatim>\<open>commit()\<close> is performed.
\<close>

theorem bad_onPrepare_is_hook_failure:
  assumes "run_hook_body fn (newHookContext c) (uuid_state w) = (None, outer, g)"
    and "onPrepare outer = LFalse \<or> onPrepare outer = LOther"
    and "ctx_status c = UNCOMMITTED" and "mutex w = Some (held c)"
  shows "\<exists>c' w'. runHook fn c w = (Some ExpectFailed, c', w')
          \<and> state w' = (state w)\<lparr> prepared := None \<rparr>
          \<and> committed (state w') = committed (state w)
          \<and> ctx_status c' = ABORTED
          \<and> files (dir w') PATH = Some (Complete (state w'))
          \<and> mutex w' = None
          \<and> trace w' = trace w @ [HookBody, Abort, DiskWrite (state w'), Unlock]"
proof -
  from run_hook_body_inner [OF assms(1)] assms(3,4)
  have i: "ctx_status (inner outer) = UNCOMMITTED" "held (inner outer) = held c"
    by (simp_all add: newHookContext_def)
  have g: "guarded_body fn (newHookContext c) w =
             (Some ExpectFailed, outer, (log HookBody w)\<lparr> uuid_state := g \<rparr>)"
    using assms(2) by (auto simp: guarded_body_def assms(1))
  show ?thesis
    using i assms(4)
    by (simp add: runHook_def g hook_failed_ok log_def)
qed

theorem bad_onPrepare_is_hook_failure_witness:
  "run_hook_body ex_hook_bad_onPrepare (newHookContext (newInnerHookContext ex_world 0))
       (uuid_state ex_world)
     = (None,
        fst (snd (run_hook_body ex_hook_bad_onPrepare
                    (newHookContext (newInnerHookContext ex_world 0)) (uuid_state ex_world))),
        12)
   \<and> onPrepare (fst (snd (run_hook_body ex_hook_bad_onPrepare
                    (newHookContext (newInnerHookContext ex_world 0)) (uuid_state ex_world))))
       = LOther
   \<and> ctx_status (newInnerHookContext ex_world 0) = UNCOMMITTED
   \<and> mutex ex_world = Some (held (newInnerHookContext ex_world 0))
   \<and> (\<exists>c' w'. runHook ex_hook_bad_onPrepare (newInnerHookContext ex_world 0) ex_world
                  = (Some ExpectFailed, c', w')
          \<and> state w' = ex_doc ex_committed None
          \<and> ctx_status c' = ABORTED
          \<and> files (dir w') PATH = Some (Complete (ex_doc ex_committed None))
          \<and> mutex w' = None
          \<and> trace w' = [HookBody, Abort, DiskWrite (ex_doc ex_committed None), Unlock])"
proof -
  let ?c = "newInnerHookContext ex_world 0"
  let ?b = "run_hook_body ex_hook_bad_onPrepare (newHookContext ?c) (uuid_state ex_world)"
  have b: "?b = (None, fst (snd ?b), 12)"
    by (simp add: ex_hook_bad_onPrepare_def enqueueSend_def checkStatus_def uuid4_def
        newHookContext_def newInnerHookContext_def ex_world_def Let_def)
  have o: "onPrepare (fst (snd ?b)) = LOther"
    by (simp add: ex_hook_bad_onPrepare_def enqueueSend_def checkStatus_def uuid4_def
        newHookContext_def newInnerHookContext_def ex_world_def Let_def)
  have s: "ctx_status ?c = UNCOMMITTED"
    by (simp add: newInnerHookContext_def)
  have m: "mutex ex_world = Some (held ?c)"
    by (simp add: newInnerHookContext_def ex_world_def)
  have w: "(state ex_world)\<lparr> prepared := None \<rparr> = ex_doc ex_committed None"
    "trace ex_world = []"
    by (simp_all add: ex_world_def ex_doc_def)
  show ?thesis
    using b o s m bad_onPrepare_is_hook_failure [OF b disjI2 [OF o] s m]
    by (auto simp: w)
qed

text \<open>
  Claim C4. In one execution of \<^verbatim>\<open>_runHook\<close> the hook body runs once and
  \<^verbatim>\<open>afterCommit\<close> is called at most once. When it is called, the events directly
  before the call are \<^verbatim>\<open>commit()\<close> and its disk write, the in-memory state is the
  written one, its committed boxes are the hook's working copy and it holds no prepared
  boxes. When \<^verbatim>\<open>afterCommit\<close> throws \<open>e\<close>, the run raises \<open>e\<close> with the mutex
  released, after that same commit.
\<close>

theorem afterCommit_once_and_after_commit:
  assumes "ctx_status c = UNCOMMITTED" and "mutex w = Some (held c)"
    and "run_hook_body fn (newHookContext c) (uuid_state w) = (rb, outer, g)"
    and "runHook fn c w = (r, c', w')"
  shows "\<exists>evs. trace w' = trace w @ evs
          \<and> count_list evs AfterCommitCalled \<le> 1
          \<and> count_list evs HookBody = 1
          \<and> (AfterCommitCalled \<in> set evs \<longrightarrow>
                sublist [Commit, DiskWrite (state w'), AfterCommitCalled] evs
                \<and> committed (state w') = uncommitted (inner outer)
                \<and> prepared (state w') = None
                \<and> files (dir w') PATH = Some (Complete (state w')))
          \<and> (\<forall>e. rb = None
                  \<and> (onPrepare outer = LNil
                      \<or> (\<exists>f. onPrepare outer = LFunction f
                             \<and> f (revision (uncommitted (inner outer))) = None))
                  \<and> afterCommit outer = LFunction (Some e) \<longrightarrow>
                 r = Some e \<and> mutex w' = None \<and> AfterCommitCalled \<in> set evs)"
proof -
  define gr where "gr = (case rb of Some e \<Rightarrow> Some e
                   | None \<Rightarrow> if is_function_or_nil (onPrepare outer) then None
                             else Some ExpectFailed)"
  define w1 where "w1 = (log HookBody w)\<lparr> uuid_state := g \<rparr>"
  have g: "guarded_body fn (newHookContext c) w = (gr, outer, w1)"
    by (simp add: guarded_body_def assms(3) gr_def w1_def split: option.splits)
  note gr = gr_def
  from guarded_body_inner [OF g] assms(1,2)
  have i: "ctx_status (inner outer) = UNCOMMITTED" "mutex w1 = Some (held (inner outer))"
    and w1: "state w1 = state w" "dir w1 = dir w" "trace w1 = trace w @ [HookBody]"
    by simp_all
  show ?thesis
  proof (cases gr)
    case None
    then have f: "is_function_or_nil (onPrepare outer)" and rb: "rb = None"
      using gr by (auto split: option.splits if_splits)
    have h: "hook_succeeded outer w1 = (r, c', w')"
      using assms(4) None by (simp add: runHook_def g)
    from hook_succeeded_ok [OF i f h] w1
    show ?thesis
      by (auto simp: sublist_Cons_right)
  next
    case (Some err)
    then have h: "hook_failed err (inner outer) w1 = (r, c', w')"
      using assms(4) by (simp add: runHook_def g)
    have n: "\<not> (rb = None \<and> is_function_or_nil (onPrepare outer))"
      using Some gr by (auto split: option.splits)
    show ?thesis
      using h n w1
      by (auto simp: hook_failed_ok [OF i])
  qed
qed

theorem afterCommit_once_and_after_commit_witness:
  "ctx_status (newInnerHookContext ex_world 0) = UNCOMMITTED
   \<and> mutex ex_world = Some (held (newInnerHookContext ex_world 0))
   \<and> (\<exists>evs. trace (snd (snd (runHook ex_hook_afterCommit_throws
                                 (newInnerHookContext ex_world 0) ex_world)))
               = trace ex_world @ evs
          \<and> count_list evs AfterCommitCalled \<le> 1
          \<and> count_list evs HookBody = 1
          \<and> AfterCommitCalled \<in> set evs
          \<and> sublist [Commit,
                      DiskWrite (state (snd (snd (runHook ex_hook_afterCommit_throws
                                 (newInnerHookContext ex_world 0) ex_world)))),
                      AfterCommitCalled] evs)
   \<and> fst (runHook ex_hook_afterCommit_throws (newInnerHookContext ex_world 0) ex_world)
       = Some (UserError ''late'')
   \<and> mutex (snd (snd (runHook ex_hook_afterCommit_throws
                         (newInnerHookContext ex_world 0) ex_world))) = None
   \<and> outbox (committed (state (snd (snd (runHook ex_hook_afterCommit_throws
                         (newInnerHookContext ex_world 0) ex_world)))))
       = [\<lparr> status = PENDING, transaction = ex_out, entry_id = 10, ref = 11 \<rparr>]"
proof -
  let ?c = "newInnerHookContext ex_world 0"
  let ?b = "run_hook_body ex_hook_afterCommit_throws (newHookContext ?c) (uuid_state ex_world)"
  let ?R = "runHook ex_hook_afterCommit_throws ?c ex_world"
  have s: "ctx_status ?c = UNCOMMITTED"
    by (simp add: newInnerHookContext_def)
  have m: "mutex ex_world = Some (held ?c)"
    by (simp add: newInnerHookContext_def ex_world_def)
  have b: "?b = (fst ?b, fst (snd ?b), snd (snd ?b))"
    by simp
  have r: "?R = (fst ?R, fst (snd ?R), snd (snd ?R))"
    by simp
  have e: "fst ?b = None" "onPrepare (fst (snd ?b)) = LNil"
    "afterCommit (fst (snd ?b)) = LFunction (Some (UserError ''late''))"
    "outbox (uncommitted (inner (fst (snd ?b))))
       = [\<lparr> status = PENDING, transaction = ex_out, entry_id = 10, ref = 11 \<rparr>]"
    by (simp_all add: ex_hook_afterCommit_throws_def enqueueSend_def checkStatus_def uuid4_def
        newHookContext_def newInnerHookContext_def ex_world_def ex_doc_def ex_committed_def
        Let_def)
  show ?thesis
    using s m afterCommit_once_and_after_commit [OF s m b r]
    by (auto simp: e)
qed

subsection \<open>Sending\<close>

lemma status_writes_append:
  "status_writes (xs @ ys) = status_writes xs @ status_writes ys"
  by (induction xs rule: status_writes.induct) auto

lemma outgoing_of_log:
  "outgoing_of (log e w) = outgoing_of w"
  by (simp add: outgoing_of_def log_def)

lemma trace_log:
  "trace (log e w) = trace w @ [e]"
  by (simp add: log_def)

lemma set_commit_return_ok:
  assumes "outgoing_of w = Some outgoing"
  shows "\<exists>w'. set_commit_return st result w = (Ret result, w')
          \<and> trace w' = trace w @ [StatusSet st, DiskWrite (state w')]
          \<and> outgoing_of w' = Some (outgoing\<lparr> status := st \<rparr>)
          \<and> files (dir w') PATH = Some (Complete (state w'))
          \<and> mutex w' = mutex w"
  using assms
  by (auto simp: set_commit_return_def set_status_def commit_world_ok log_def outgoing_of_def
      Let_def split: list.splits)

lemma wasSent_unknown:
  assumes "status outgoing = UNKNOWN" and "wasSent outgoing ss w = (r, ss', w1)"
  shows "w1 = log (HttpSearch (ref outgoing)) w"
  using assms
  by (auto simp: wasSent_def Let_def split: list.splits search_reply.splits)

lemma send_loop_writes:
  assumes "outgoing_of w = Some outgoing" and "status outgoing = UNKNOWN"
    and "send_loop ps ss w = (r, w')"
  shows "\<exists>evs. trace w' = trace w @ HttpPost # evs
          \<and> (status_writes evs = [] \<and> outgoing_of w' = Some outgoing
              \<or> status_writes evs = [SENT] \<and> outgoing_of w' = Some (outgoing\<lparr> status := SENT \<rparr>)
              \<or> status_writes evs = [PENDING]
                  \<and> outgoing_of w' = Some (outgoing\<lparr> status := PENDING \<rparr>))"
  using assms
proof (induction ps ss w arbitrary: r w' rule: send_loop.induct)
  case (1 ss w)
  then show ?case by (auto simp: outgoing_of_log trace_log)
next
  case (2 b ps ss w)
  have o: "outgoing_of (log HttpPost w) = Some outgoing"
    using 2(1) by (simp add: outgoing_of_log)
  show ?case
  proof (cases b)
    case BodyOk
    with 2 set_commit_return_ok [OF o, of SENT "(True, None)"] show ?thesis
      by (auto simp: trace_log)
  next
    case (BodyError obj)
    with 2 set_commit_return_ok [OF o, of PENDING "(False, Some obj)"] show ?thesis
      by (auto simp: trace_log)
  next
    case BodyBadJson
    with 2 show ?thesis by (auto simp: outgoing_of_log trace_log)
  qed
next
  case (3 b ps ss w)
  have o: "outgoing_of (log HttpPost w) = Some outgoing"
    using 3(1) by (simp add: outgoing_of_log)
  show ?case
  proof (cases b)
    case BodyOk
    with 3 show ?thesis by (auto simp: outgoing_of_log trace_log)
  next
    case (BodyError obj)
    with 3 set_commit_return_ok [OF o, of PENDING "(False, Some obj)"] show ?thesis
      by (auto simp: trace_log)
  next
    case BodyBadJson
    with 3 show ?thesis by (auto simp: outgoing_of_log trace_log)
  qed
next
  case (4 ps ss w)
  obtain q ss' w1 where ws: "wasSent outgoing ss (log HttpPost w) = (q, ss', w1)"
    by (cases "wasSent outgoing ss (log HttpPost w)") auto
  from wasSent_unknown [OF 4(3) ws]
  have w1: "w1 = log (HttpSearch (ref outgoing)) (log HttpPost w)" .
  then have o: "outgoing_of w1 = Some outgoing"
    and t: "trace w1 = trace w @ [HttpPost, HttpSearch (ref outgoing)]"
    using 4(2) by (simp_all add: outgoing_of_log trace_log)
  show ?case
  proof (cases q)
    case (Ret sent)
    show ?thesis
    proof (cases sent)
      case True
      with Ret 4(2,4) ws set_commit_return_ok [OF o, of SENT "(True, None)"] t show ?thesis
        by auto
    next
      case False
      with Ret 4(2,4) ws have l: "send_loop ps ss' w1 = (r, w')"
        by simp
      from False have f: "sent = False"
        by simp
      from 4(1) [OF 4(2) ws [symmetric] Ret f refl o 4(3) l] t show ?thesis
        by auto
    qed
  next
    case (Raise e)
    with 4(2,4) ws t o show ?thesis by auto
  next
    case Pending
    with 4(2,4) ws t o show ?thesis by auto
  qed
qed

lemma status_update_same:
  "status e = st \<Longrightarrow> e\<lparr> status := st \<rparr> = e"
  by auto

lemma set_status_same:
  assumes "outgoing_of w = Some outgoing" and "status outgoing = st"
  shows "set_status st w = log (StatusSet st) w"
proof -
  obtain es where o: "outbox (committed (state w)) = outgoing # es"
    using assms(1) by (auto simp: outgoing_of_def split: list.splits)
  have "(committed (state w))\<lparr> outbox := outgoing\<lparr> status := st \<rparr> # es \<rparr> = committed (state w)"
    using o assms(2) by (simp add: status_update_same)
  then show ?thesis
    using o by (simp add: set_status_def Let_def)
qed

lemma commit_set_status_ok:
  assumes "outgoing_of w = Some outgoing"
  shows "\<exists>w'. commit_world (set_status st w) = Inr w'
          \<and> trace w' = trace w @ [StatusSet st, DiskWrite (state w')]
          \<and> outgoing_of w' = Some (outgoing\<lparr> status := st \<rparr>)
          \<and> files (dir w') PATH = Some (Complete (state w'))
          \<and> (status outgoing = st \<longrightarrow> state w' = state w)"
  using assms set_status_same [OF assms, of st]
  by (auto simp: set_status_def commit_world_ok log_def outgoing_of_def
      Let_def split: list.splits)

text \<open>
  Claim C5. In every execution of \<^verbatim>\<open>_send\<close> on the head entry (its calls of
  \<^verbatim>\<open>_wasSent\<close> included, and also when the call is cut short by an error or is
  still waiting for the node), the values assigned to the entry's status, in order and
  starting from the status at the call, only take steps of the machine: an assignment
  either leaves the status as it is or goes from PENDING to UNKNOWN, from UNKNOWN to
  PENDING or from UNKNOWN to SENT; so a status that is SENT stays SENT. The status of
  the head entry afterwards is the last value assigned, and nothing else of the entry
  changes.
\<close>

theorem send_status_follows_machine:
  assumes "outgoing_of w = Some outgoing" and "send ps ss w = (r, w')"
  shows "\<exists>evs. trace w' = trace w @ evs
          \<and> follows_machine (status outgoing) (status_writes evs)
          \<and> outgoing_of w'
              = Some (outgoing\<lparr> status := last (status outgoing # status_writes evs) \<rparr>)"
proof (cases "status outgoing")
  case PENDING
  obtain w2 where c: "commit_world (set_status UNKNOWN w) = Inr w2"
    and t: "trace w2 = trace w @ [StatusSet UNKNOWN, DiskWrite (state w2)]"
    and o: "outgoing_of w2 = Some (outgoing\<lparr> status := UNKNOWN \<rparr>)"
    using commit_set_status_ok [OF assms(1), of UNKNOWN] by auto
  have l: "send_loop ps ss w2 = (r, w')"
    using assms PENDING c by (simp add: send_def wasSent_def)
  from send_loop_writes [OF o _ l] t PENDING show ?thesis
    by (auto simp: status_writes_append)
next
  case SENT
  then have "set_commit_return SENT (True, None) w = (r, w')"
    using assms by (simp add: send_def wasSent_def)
  with set_commit_return_ok [OF assms(1), of SENT "(True, None)"] SENT show ?thesis
    by auto
next
  case UNKNOWN
  obtain q ss' w1 where ws: "wasSent outgoing ss w = (q, ss', w1)"
    by (cases "wasSent outgoing ss w") auto
  from wasSent_unknown [OF UNKNOWN ws]
  have o: "outgoing_of w1 = Some outgoing"
    and t: "trace w1 = trace w @ [HttpSearch (ref outgoing)]"
    using assms(1) by (simp_all add: outgoing_of_log trace_log)
  have u: "outgoing\<lparr> status := UNKNOWN \<rparr> = outgoing"
    using UNKNOWN by (rule status_update_same)
  show ?thesis
  proof (cases q)
    case (Ret sent)
    show ?thesis
    proof (cases sent)
      case True
      then have "set_commit_return SENT (True, None) w1 = (r, w')"
        using assms ws Ret by (simp add: send_def)
      with set_commit_return_ok [OF o, of SENT "(True, None)"] t UNKNOWN show ?thesis
        by auto
    next
      case False
      obtain w2 where c: "commit_world (set_status UNKNOWN w1) = Inr w2"
        and t2: "trace w2 = trace w1 @ [StatusSet UNKNOWN, DiskWrite (state w2)]"
        and o2: "outgoing_of w2 = Some (outgoing\<lparr> status := UNKNOWN \<rparr>)"
        using commit_set_status_ok [OF o, of UNKNOWN] by auto
      have l: "send_loop ps ss' w2 = (r, w')"
        using assms ws Ret False c by (simp add: send_def)
      from send_loop_writes [OF o2 _ l] t t2 UNKNOWN u show ?thesis
        by (auto simp: status_writes_append)
    qed
  next
    case (Raise e)
    then show ?thesis
      using assms ws t o u by (auto simp: send_def)
  next
    case Pending
    then show ?thesis
      using assms ws t o u by (auto simp: send_def)
  qed
qed

theorem send_status_follows_machine_witness:
  "outgoing_of (ex_send_world UNKNOWN) = Some (ex_entry UNKNOWN)
   \<and> (\<exists>evs. trace (snd (send [PostNoResponse, PostResponse BodyOk]
                            [SearchMatches 0, SearchMatches 0] (ex_send_world UNKNOWN)))
               = trace (ex_send_world UNKNOWN) @ evs
          \<and> follows_machine UNKNOWN (status_writes evs)
          \<and> outgoing_of (snd (send [PostNoResponse, PostResponse BodyOk]
                            [SearchMatches 0, SearchMatches 0] (ex_send_world UNKNOWN)))
              = Some ((ex_entry UNKNOWN)\<lparr> status := last (UNKNOWN # status_writes evs) \<rparr>))"
proof -
  let ?w = "ex_send_world UNKNOWN"
  let ?R = "send [PostNoResponse, PostResponse BodyOk] [SearchMatches 0, SearchMatches 0] ?w"
  have o: "outgoing_of ?w = Some (ex_entry UNKNOWN)"
    by (simp add: outgoing_of_def ex_send_world_def ex_doc_def)
  have r: "?R = (fst ?R, snd ?R)"
    by simp
  have s: "status (ex_entry UNKNOWN) = UNKNOWN"
    by (simp add: ex_entry_def)
  show ?thesis
    using o send_status_follows_machine [OF o r]
    by (simp add: s)
qed

text \<open>
  The claim as the specification words it fails: on an entry whose status is UNKNOWN
  and whose \<^verbatim>\<open>ref\<close> the node does not know, \<^verbatim>\<open>_send\<close> issues the POST having
  assigned only UNKNOWN; PENDING is never assigned.
\<close>

theorem send_no_match_never_sets_pending:
  "outgoing_of (ex_send_world UNKNOWN) = Some (ex_entry UNKNOWN)
   \<and> fst (send [PostResponse BodyOk] [SearchMatches 0] (ex_send_world UNKNOWN))
       = Ret (True, None)
   \<and> status_writes (trace (snd (send [PostResponse BodyOk] [SearchMatches 0]
                                   (ex_send_world UNKNOWN))))
       = [UNKNOWN, SENT]
   \<and> take 4 (trace (snd (send [PostResponse BodyOk] [SearchMatches 0]
                             (ex_send_world UNKNOWN))))
       = [HttpSearch 2, StatusSet UNKNOWN, DiskWrite (state (ex_send_world UNKNOWN)), HttpPost]
   \<and> StatusSet PENDING \<notin> set (trace (snd (send [PostResponse BodyOk] [SearchMatches 0]
                                             (ex_send_world UNKNOWN))))"
  by (simp add: send_def send_loop.simps wasSent_def outgoing_of_def set_status_def
      set_commit_return_def commit_world_ok log_def Let_def
      ex_send_world_def ex_doc_def ex_entry_def)

text \<open>
  Claim C6, amended. When \<^verbatim>\<open>_send\<close> runs on the head entry:
  if its status is SENT the call returns success (after committing the state as it
  is, without a request to the node);
  if its status is UNKNOWN it queries the extended-search endpoint for the entry's
  \<^verbatim>\<open>ref\<close>, and when a match is found it sets the status to SENT, commits and
  returns success;
  when no match is found the status is not set to PENDING: the entry stays UNKNOWN,
  \<^verbatim>\<open>_send\<close> assigns UNKNOWN again and commits the unchanged state, and then issues
  the POST.
\<close>

theorem send_fast_path_and_resolver:
  assumes "outgoing_of w = Some outgoing" and "send ps ss w = (r, w')"
  shows "(status outgoing = SENT \<longrightarrow>
            r = Ret (True, None) \<and> state w' = state w
            \<and> trace w' = trace w @ [StatusSet SENT, DiskWrite (state w)]
            \<and> files (dir w') PATH = Some (Complete (state w)))
       \<and> (\<forall>n ss'. status outgoing = UNKNOWN \<and> ss = SearchMatches n # ss' \<and> n \<noteq> 0 \<longrightarrow>
            r = Ret (True, None)
            \<and> outgoing_of w' = Some (outgoing\<lparr> status := SENT \<rparr>)
            \<and> trace w' = trace w @ [HttpSearch (ref outgoing), StatusSet SENT,
                                     DiskWrite (state w')]
            \<and> files (dir w') PATH = Some (Complete (state w')))
       \<and> (\<forall>ss'. status outgoing = UNKNOWN \<and> ss = SearchMatches 0 # ss' \<longrightarrow>
            (\<exists>evs. trace w' = trace w @ [HttpSearch (ref outgoing), StatusSet UNKNOWN,
                                          DiskWrite (state w), HttpPost] @ evs))"
proof (intro conjI allI impI)
  assume s: "status outgoing = SENT"
  then have c: "set_commit_return SENT (True, None) w = (r, w')"
    using assms by (simp add: send_def wasSent_def)
  obtain w2 where c2: "commit_world (set_status SENT w) = Inr w2"
    and t: "trace w2 = trace w @ [StatusSet SENT, DiskWrite (state w2)]"
    and f: "files (dir w2) PATH = Some (Complete (state w2))"
    and e: "state w2 = state w"
    using commit_set_status_ok [OF assms(1), of SENT] s by auto
  from c c2 have "r = Ret (True, None)" "w' = w2"
    by (simp_all add: set_commit_return_def)
  with t f e
  show "r = Ret (True, None)" "state w' = state w"
    "trace w' = trace w @ [StatusSet SENT, DiskWrite (state w)]"
    "files (dir w') PATH = Some (Complete (state w))"
    by simp_all
next
  fix n ss'
  assume a: "status outgoing = UNKNOWN \<and> ss = SearchMatches n # ss' \<and> n \<noteq> 0"
  let ?w1 = "log (HttpSearch (ref outgoing)) w"
  have ws: "wasSent outgoing ss w = (Ret True, ss', ?w1)"
    using a by (simp add: wasSent_def)
  have o: "outgoing_of ?w1 = Some outgoing"
    using assms(1) by (simp add: outgoing_of_log)
  have c: "set_commit_return SENT (True, None) ?w1 = (r, w')"
    using assms ws by (simp add: send_def)
  with set_commit_return_ok [OF o, of SENT "(True, None)"]
  show "r = Ret (True, None)" "outgoing_of w' = Some (outgoing\<lparr> status := SENT \<rparr>)"
    "trace w' = trace w @ [HttpSearch (ref outgoing), StatusSet SENT, DiskWrite (state w')]"
    "files (dir w') PATH = Some (Complete (state w'))"
    by (auto simp: trace_log)
next
  fix ss'
  assume a: "status outgoing = UNKNOWN \<and> ss = SearchMatches 0 # ss'"
  let ?w1 = "log (HttpSearch (ref outgoing)) w"
  have ws: "wasSent outgoing ss w = (Ret False, ss', ?w1)"
    using a by (simp add: wasSent_def)
  have o: "outgoing_of ?w1 = Some outgoing"
    using assms(1) by (simp add: outgoing_of_log)
  obtain w2 where c: "commit_world (set_status UNKNOWN ?w1) = Inr w2"
    and t: "trace w2 = trace ?w1 @ [StatusSet UNKNOWN, DiskWrite (state w2)]"
    and o2: "outgoing_of w2 = Some (outgoing\<lparr> status := UNKNOWN \<rparr>)"
    and e: "state w2 = state ?w1"
    using commit_set_status_ok [OF o, of UNKNOWN] a by auto
  have l: "send_loop ps ss' w2 = (r, w')"
    using assms ws c by (simp add: send_def)
  from send_loop_writes [OF o2 _ l] t e
  show "\<exists>evs. trace w' = trace w @ [HttpSearch (ref outgoing), StatusSet UNKNOWN,
                                     DiskWrite (state w), HttpPost] @ evs"
    using a by (auto simp: trace_log log_def)
qed

theorem send_fast_path_and_resolver_witness:
  "outgoing_of (ex_send_world UNKNOWN) = Some (ex_entry UNKNOWN)
   \<and> fst (send [] [SearchMatches 1] (ex_send_world UNKNOWN)) = Ret (True, None)
   \<and> outgoing_of (snd (send [] [SearchMatches 1] (ex_send_world UNKNOWN)))
       = Some (ex_entry SENT)
   \<and> trace (snd (send [] [SearchMatches 1] (ex_send_world UNKNOWN)))
       = [HttpSearch 2, StatusSet SENT,
          DiskWrite (state (snd (send [] [SearchMatches 1] (ex_send_world UNKNOWN))))]
   \<and> (\<exists>evs. trace (snd (send [PostResponse BodyOk] [SearchMatches 0] (ex_send_world UNKNOWN)))
               = [HttpSearch 2, StatusSet UNKNOWN, DiskWrite (state (ex_send_world UNKNOWN)),
                  HttpPost] @ evs)
   \<and> outgoing_of (ex_send_world SENT) = Some (ex_entry SENT)
   \<and> fst (send [] [] (ex_send_world SENT)) = Ret (True, None)"
proof -
  let ?u = "ex_send_world UNKNOWN"
  let ?s = "ex_send_world SENT"
  let ?A = "send [] [SearchMatches 1] ?u"
  let ?B = "send [PostResponse BodyOk] [SearchMatches 0] ?u"
  let ?C = "send [] [] ?s"
  have ou: "outgoing_of ?u = Some (ex_entry UNKNOWN)"
    by (simp add: outgoing_of_def ex_send_world_def ex_doc_def)
  have os: "outgoing_of ?s = Some (ex_entry SENT)"
    by (simp add: outgoing_of_def ex_send_world_def ex_doc_def)
  have a: "?A = (fst ?A, snd ?A)" and b: "?B = (fst ?B, snd ?B)" and c: "?C = (fst ?C, snd ?C)"
    by simp_all
  have e: "status (ex_entry UNKNOWN) = UNKNOWN" "status (ex_entry SENT) = SENT"
    "ref (ex_entry UNKNOWN) = 2" "(ex_entry UNKNOWN)\<lparr> status := SENT \<rparr> = ex_entry SENT"
    "trace ?u = []"
    by (simp_all add: ex_entry_def ex_send_world_def)
  show ?thesis
    using ou os send_fast_path_and_resolver [OF ou a] send_fast_path_and_resolver [OF ou b]
      send_fast_path_and_resolver [OF os c]
    by (simp add: e)
qed

subsection \<open>The push socket\<close>

text \<open>
  Claim C7 does not hold of the code. The branch for a closed socket tests the event's
  first parameter against the name \<^verbatim>\<open>"websocket_closed"\<close> and against the URL at
  once, so a \<^verbatim>\<open>websocket_closed\<close> event for the socket's current URL is skipped:
  the loop keeps pulling, and the socket is reopened only when the keepalive timer
  fires.
\<close>

theorem websocket_closed_event_is_skipped:
  "await_event
     [[LuaStr ''websocket_closed'', LuaStr ''wss://krist.dev/ba90ad17'']]
     7 (LuaStr ''wss://krist.dev/ba90ad17'') = None
   \<and> await_event
     [[LuaStr ''websocket_closed'', LuaStr ''wss://krist.dev/ba90ad17''],
      [LuaStr ''timer'', LuaNum 7]]
     7 (LuaStr ''wss://krist.dev/ba90ad17'') = Some [StatusCb False, Reopen]"
  by (simp add: ev_at_def)

text \<open>Whatever follows a closed event for the current URL decides alone.\<close>

lemma websocket_closed_skipped:
  "u \<noteq> ''websocket_closed'' \<Longrightarrow>
     await_event ((LuaStr ''websocket_closed'' # LuaStr u # params) # evs) t (LuaStr u)
       = await_event evs t (LuaStr u)"
  by (simp add: ev_at_def)

subsection \<open>Timestamps\<close>

text \<open>
  Claim C9 does not hold of the code. The division by four is not an integer
  division, so a year adds 365.25 days on top of the year offsets that \<^verbatim>\<open>DAYS\<close>
  already holds, and the result falls back at the start of every four-year cycle:
  the last day of 2003 is mapped to a later second than the first day of 2004.
\<close>

theorem parseTime_falls_back_at_cycle_start:
  "parseTime ''2003-12-31T00:00:00Z'' = Some 1167501600
   \<and> parseTime ''2004-01-01T00:00:00Z'' = Some 1072915200
   \<and> \<not> (the (parseTime ''2003-12-31T00:00:00Z'') < the (parseTime ''2004-01-01T00:00:00Z''))"
  by code_simp

end
